theory Spec2Isabelle
  imports Complex_Main "HOL-Library.Log_Nat"
begin

section \<open>Mailbox Full Alert: the background monitor of \<open>src/background.js\<close>\<close>

text \<open>
  The add-on's background script is embedded function by function. The repository also
  holds an older copy of the script, which neither clears notifications nor resets the
  stored percentage; the script embedded here is the one of the add-on proper, with
  stable notification ids and eager clearing. JavaScript numbers
  are IEEE 754 doubles. They are modelled by the rationals they denote, and the division
  and the multiplications of the percentage computation round their exact result to the
  nearest double (\<open>to_double\<close>: 53 significant bits, ties to even). \<open>NaN\<close>, the
  infinities and the limits of the exponent range are outside the model; the sum of the
  message sizes is exact, as a sum of byte counts below \<open>2^53\<close> is. The host
  interfaces (\<open>browser.storage\<close>, \<open>browser.notifications\<close>, \<open>browser.alarms\<close>,
  \<open>browser.browserAction\<close>) are modelled by the state they keep, and their calls
  are taken to succeed; the one failure the script itself handles inside a pass, a failed
  summation of an account, is a value of \<open>usage_result\<close>.
\<close>

subsection \<open>Constants\<close>

definition MFA_DEFAULT_CHECK_INTERVAL_MIN :: rat where
  "MFA_DEFAULT_CHECK_INTERVAL_MIN = 360"

definition MFA_DEFAULT_THRESHOLD_PCT :: rat where
  "MFA_DEFAULT_THRESHOLD_PCT = 80"

definition MFA_NOTIFY_STATE_KEY_PREFIX :: string where
  "MFA_NOTIFY_STATE_KEY_PREFIX = ''MFA_lastNotifiedPct_''"

definition MFA_NOTIFICATION_ID_PREFIX :: string where
  "MFA_NOTIFICATION_ID_PREFIX = ''quota-''"

subsection \<open>Data\<close>

text \<open>A JavaScript value as far as the script inspects one (\<open>typeof\<close>, \<open>Number.isFinite\<close>).\<close>

datatype js_value = JUndefined | JNull | JBool bool | JNum rat | JStr string

text \<open>An account as \<open>browser.accounts.list()\<close> returns it; an empty name is falsy.\<close>

record account =
  acc_id :: string
  acc_name :: string

text \<open>
  One entry of the stored \<open>perAccount\<close> object,
  \<open>{ active:boolean, limitBytes:number, thresholdPct:number }\<close>; a field that is absent
  (or, for \<open>thresholdPct\<close>, not a finite number) is \<open>None\<close>.
\<close>

record account_conf =
  conf_active :: "bool option"
  conf_limitBytes :: "rat option"
  conf_thresholdPct :: "rat option"

text \<open>What \<open>sumAccountBytes\<close> yields for an account in a pass: it throws, or returns a total.\<close>

datatype usage_result = Failed | Bytes rat

text \<open>The calls a pass makes that leave no other mark in the state.\<close>

datatype event =
    SumAccountBytes string
  | ConsoleError string
  | ClearNotification string
  | CreateNotification string rat rat rat rat

text \<open>The badge text is \<open>''\<close> or the template \<open>`${percent}%`\<close>.\<close>

datatype badge_text = BadgeEmpty | BadgePercent int

record host =
  lastNotifiedPct :: "string \<rightharpoonup> rat"
  notifications :: "string set"
  badgeText :: badge_text
  badgeTitle :: string
  trace :: "event list"

text \<open>The variables of the loop of \<open>checkAllAccounts\<close>, with the host state it mutates.\<close>

record pass_state =
  hst :: host
  topBadgePercent :: int
  topBadgeAccountName :: "string option"

subsection \<open>Notifications and badge\<close>

definition getNotificationId :: "string \<Rightarrow> string" where
  "getNotificationId accountId = MFA_NOTIFICATION_ID_PREFIX @ accountId"

definition clearNotification :: "string \<Rightarrow> host \<Rightarrow> host" where
  "clearNotification accountId h =
     h\<lparr>notifications := notifications h - {getNotificationId accountId},
       trace := trace h @ [ClearNotification (getNotificationId accountId)]\<rparr>"

text \<open>
  \<open>notify\<close> creates the notification under the account's stable id, so that it replaces
  an earlier one of the same account.
\<close>

definition notify :: "account \<Rightarrow> rat \<Rightarrow> rat \<Rightarrow> rat \<Rightarrow> rat \<Rightarrow> host \<Rightarrow> host" where
  "notify acc used limit pctUsed threshold h =
     h\<lparr>notifications := insert (getNotificationId (acc_id acc)) (notifications h),
       trace := trace h @
         [CreateNotification (getNotificationId (acc_id acc)) used limit pctUsed threshold]\<rparr>"

text \<open>\<open>browser.i18n.getMessage('extShortName') || 'MFA'\<close>, the message being a parameter.\<close>

definition defaultTitle :: "string \<Rightarrow> string" where
  "defaultTitle extShortName = (if extShortName \<noteq> [] then extShortName else ''MFA'')"

definition setBadge :: "string \<Rightarrow> int option \<Rightarrow> string option \<Rightarrow> host \<Rightarrow> host" where
  "setBadge extShortName percent accountName h =
     (case percent of
        Some p \<Rightarrow>
          h\<lparr>badgeText := BadgePercent p,
            badgeTitle :=
              (case accountName of
                 Some n \<Rightarrow> if n \<noteq> [] then n else defaultTitle extShortName
               | None \<Rightarrow> defaultTitle extShortName)\<rparr>
      | None \<Rightarrow>
          h\<lparr>badgeText := BadgeEmpty, badgeTitle := defaultTitle extShortName\<rparr>)"

subsection \<open>The core check\<close>

text \<open>The configuration values the loop reads for an account, with their defaults.\<close>

definition conf_of :: "(string \<rightharpoonup> account_conf) \<Rightarrow> string \<Rightarrow> account_conf" where
  "conf_of perAccount accountId =
     (case perAccount accountId of
        Some c \<Rightarrow> c
      | None \<Rightarrow> \<lparr>conf_active = None, conf_limitBytes = None, conf_thresholdPct = None\<rparr>)"

definition active_of :: "account_conf \<Rightarrow> bool" where
  "active_of conf = (conf_active conf \<noteq> Some False)"

definition limit_of :: "account_conf \<Rightarrow> rat" where
  "limit_of conf = (case conf_limitBytes conf of Some l \<Rightarrow> l | None \<Rightarrow> 0)"

definition threshold_of :: "account_conf \<Rightarrow> rat" where
  "threshold_of conf =
     (case conf_thresholdPct conf of Some t \<Rightarrow> t | None \<Rightarrow> MFA_DEFAULT_THRESHOLD_PCT)"

definition notify_key :: "string \<Rightarrow> string" where
  "notify_key accountId = MFA_NOTIFY_STATE_KEY_PREFIX @ accountId"

text \<open>\<open>browser.storage.local.get({ [key]: 0 })\<close>: the stored value, or 0 on a miss.\<close>

definition lastPct_of :: "host \<Rightarrow> string \<Rightarrow> rat" where
  "lastPct_of h accountId =
     (case lastNotifiedPct h (notify_key accountId) of Some v \<Rightarrow> v | None \<Rightarrow> 0)"

definition storage_set :: "string \<Rightarrow> rat \<Rightarrow> host \<Rightarrow> host" where
  "storage_set key v h = h\<lparr>lastNotifiedPct := (lastNotifiedPct h)(key \<mapsto> v)\<rparr>"

definition log_event :: "event \<Rightarrow> host \<Rightarrow> host" where
  "log_event e h = h\<lparr>trace := trace h @ [e]\<rparr>"

text \<open>
  Double arithmetic. \<open>round_even\<close> rounds to the nearest integer, a tie to the even one;
  \<open>expo x\<close> is the binary exponent of a positive \<open>x\<close>, the \<open>e\<close> with
  \<open>2^e \<le> x < 2^(e+1)\<close>; \<open>to_double\<close> rounds to 53 significant bits. The operators
  \<open>/\<close> and \<open>*\<close> of JavaScript round the exact quotient and product.
\<close>

definition round_even :: "rat \<Rightarrow> int" where
  "round_even y =
     (let f = \<lfloor>y\<rfloor>; d = y - of_int f
      in if d < 1 / 2 then f else if 1 / 2 < d then f + 1
         else if even f then f else f + 1)"

definition expo :: "rat \<Rightarrow> int" where
  "expo x = (if 1 \<le> x then bitlen \<lfloor>x\<rfloor> - 1 else - bitlen (\<lceil>1 / x\<rceil> - 1))"

definition to_double :: "rat \<Rightarrow> rat" where
  "to_double x =
     (if x = 0 then 0
      else let u = 2 powi (expo \<bar>x\<bar> - 52)
           in of_int (round_even (x / u)) * u)"

definition js_div :: "rat \<Rightarrow> rat \<Rightarrow> rat" where
  "js_div a b = to_double (a / b)"

definition js_mul :: "rat \<Rightarrow> rat \<Rightarrow> rat" where
  "js_mul a b = to_double (a * b)"

text \<open>\<open>(used / limit) * 100\<close>\<close>

definition pctUsed_of :: "rat \<Rightarrow> rat \<Rightarrow> rat" where
  "pctUsed_of used limit = js_mul (js_div used limit) 100"

text \<open>\<open>Math.round(pctUsed * 10) / 10\<close>; \<open>Math.round\<close> rounds a half towards plus infinity.\<close>

definition math_round :: "rat \<Rightarrow> int" where
  "math_round x = \<lfloor>x + 1 / 2\<rfloor>"

definition storePct_of :: "rat \<Rightarrow> rat" where
  "storePct_of pctUsed = js_div (of_int (math_round (js_mul pctUsed 10))) 10"

text \<open>\<open>onlyAccountId && acc.id !== onlyAccountId\<close>: an empty or absent id is no scope.\<close>

definition out_of_scope :: "string option \<Rightarrow> account \<Rightarrow> bool" where
  "out_of_scope onlyAccountId acc =
     (case onlyAccountId of
        None \<Rightarrow> False
      | Some i \<Rightarrow> i \<noteq> [] \<and> acc_id acc \<noteq> i)"

text \<open>\<open>acc.name || acc.id\<close>\<close>

definition display_name :: "account \<Rightarrow> string" where
  "display_name acc = (if acc_name acc \<noteq> [] then acc_name acc else acc_id acc)"

text \<open>The body of the loop over the accounts, for one account.\<close>

definition loop_body ::
  "(string \<rightharpoonup> account_conf) \<Rightarrow> (string \<Rightarrow> usage_result) \<Rightarrow> bool \<Rightarrow> string option \<Rightarrow>
   account \<Rightarrow> pass_state \<Rightarrow> pass_state" where
  "loop_body perAccount sumAccountBytes forceNotify onlyAccountId acc s =
     (if out_of_scope onlyAccountId acc then s
      else
        let conf = conf_of perAccount (acc_id acc);
            active = active_of conf;
            limit = limit_of conf;
            threshold = threshold_of conf
        in
          if \<not> active \<or> limit = 0 \<or> limit \<le> 0 then
            s\<lparr>hst := storage_set (notify_key (acc_id acc)) 0
                        (clearNotification (acc_id acc) (hst s))\<rparr>
          else
            (case sumAccountBytes (acc_id acc) of
               Failed \<Rightarrow>
                 s\<lparr>hst := log_event (ConsoleError (acc_id acc))
                             (log_event (SumAccountBytes (acc_id acc)) (hst s))\<rparr>
             | Bytes used \<Rightarrow>
                 let h0 = log_event (SumAccountBytes (acc_id acc)) (hst s);
                     pctUsed = pctUsed_of used limit;
                     lastPct = lastPct_of h0 (acc_id acc);
                     crossedUp = (pctUsed \<ge> threshold \<and> lastPct < threshold);
                     h1 = (if pctUsed < threshold
                           then clearNotification (acc_id acc) h0 else h0);
                     floored = \<lfloor>pctUsed\<rfloor>;
                     raise_top = (pctUsed \<ge> threshold \<and> floored > topBadgePercent s);
                     h2 = (if crossedUp \<or> (forceNotify \<and> pctUsed \<ge> threshold)
                           then notify acc used limit pctUsed threshold h1 else h1);
                     storePct = storePct_of pctUsed
                 in
                   s\<lparr>hst := storage_set (notify_key (acc_id acc)) storePct h2,
                     topBadgePercent :=
                       (if raise_top then floored else topBadgePercent s),
                     topBadgeAccountName :=
                       (if raise_top then Some (display_name acc)
                        else topBadgeAccountName s)\<rparr>))"

text \<open>The \<open>for (let acc of accounts)\<close> loop.\<close>

fun for_accounts ::
  "(string \<rightharpoonup> account_conf) \<Rightarrow> (string \<Rightarrow> usage_result) \<Rightarrow> bool \<Rightarrow> string option \<Rightarrow>
   account list \<Rightarrow> pass_state \<Rightarrow> pass_state" where
  "for_accounts perAccount sumAccountBytes forceNotify onlyAccountId [] s = s"
| "for_accounts perAccount sumAccountBytes forceNotify onlyAccountId (acc # accs) s =
     for_accounts perAccount sumAccountBytes forceNotify onlyAccountId accs
       (loop_body perAccount sumAccountBytes forceNotify onlyAccountId acc s)"

text \<open>
  \<open>checkAllAccounts({ forceNotify, onlyAccountId })\<close>: the account list, the stored
  configuration, the outcome of the summation per account and the localised short name
  are what the host supplies to the pass.
\<close>

definition checkAllAccounts ::
  "string \<Rightarrow> account list \<Rightarrow> (string \<rightharpoonup> account_conf) \<Rightarrow> (string \<Rightarrow> usage_result) \<Rightarrow>
   bool \<Rightarrow> string option \<Rightarrow> host \<Rightarrow> host" where
  "checkAllAccounts extShortName accounts perAccount sumAccountBytes forceNotify
       onlyAccountId h =
     (let s = for_accounts perAccount sumAccountBytes forceNotify onlyAccountId accounts
                \<lparr>hst = h, topBadgePercent = - 1, topBadgeAccountName = None\<rparr>
      in setBadge extShortName
           (if topBadgePercent s \<ge> 0 then Some (topBadgePercent s) else None)
           (topBadgeAccountName s) (hst s))"

subsection \<open>The usage aggregator: one folder\<close>







subsection \<open>Scheduling\<close>

text \<open>
  The alarms of \<open>browser.alarms\<close>, each a name with its period in minutes. Clearing a
  name removes its alarms; creating an alarm replaces one of the same name.
\<close>

type_synonym alarms = "(string \<times> int) list"

definition alarms_clear :: "string \<Rightarrow> alarms \<Rightarrow> alarms" where
  "alarms_clear name alarms = filter (\<lambda>a. fst a \<noteq> name) alarms"

definition alarms_create :: "string \<Rightarrow> int \<Rightarrow> alarms \<Rightarrow> alarms" where
  "alarms_create name periodInMinutes alarms =
     alarms_clear name alarms @ [(name, periodInMinutes)]"

text \<open>
  \<open>getGlobalIntervalMin\<close> reads the stored interval (\<open>None\<close>: the key is missing, so the
  read yields the default) and keeps it only if \<open>Number.isFinite\<close> holds of it.
\<close>

definition getGlobalIntervalMin :: "js_value option \<Rightarrow> rat" where
  "getGlobalIntervalMin stored =
     (case stored of
        Some (JNum val) \<Rightarrow> val
      | _ \<Rightarrow> MFA_DEFAULT_CHECK_INTERVAL_MIN)"

text \<open>\<open>Number(minutesRaw) || 0\<close> of a number is that number.\<close>

definition scheduleChecksFromSettings :: "js_value option \<Rightarrow> alarms \<Rightarrow> alarms" where
  "scheduleChecksFromSettings stored alarms =
     (let minutesRaw = getGlobalIntervalMin stored;
          alarms1 = alarms_clear ''quota-check'' alarms;
          minutes = max 0 \<lfloor>if minutesRaw \<noteq> 0 then minutesRaw else 0\<rfloor>
      in if minutes = 0 then alarms1
         else let period = max 1 minutes
              in alarms_create ''quota-check'' period alarms1)"

section \<open>Observations on a pass\<close>

text \<open>The events of a trace that concern one account.\<close>

fun about :: "string \<Rightarrow> event \<Rightarrow> bool" where
  "about i (SumAccountBytes a) = (a = i)"
| "about i (ConsoleError a) = (a = i)"
| "about i (ClearNotification n) = (n = getNotificationId i)"
| "about i (CreateNotification n u l p t) = (n = getNotificationId i)"

definition events_about :: "string \<Rightarrow> host \<Rightarrow> event list" where
  "events_about i h = filter (about i) (trace h)"

fun is_create :: "event \<Rightarrow> bool" where
  "is_create (CreateNotification n u l p t) = True"
| "is_create e = False"

text \<open>How many notifications have been created for an account, and how often its usage
  has been summed.\<close>

definition notify_count :: "string \<Rightarrow> host \<Rightarrow> nat" where
  "notify_count i h = length (filter is_create (events_about i h))"

definition usage_calls :: "string \<Rightarrow> host \<Rightarrow> nat" where
  "usage_calls i h = count_list (trace h) (SumAccountBytes i)"

text \<open>All that the host state holds about one account.\<close>

definition account_view :: "string \<Rightarrow> host \<Rightarrow> rat option \<times> bool \<times> event list" where
  "account_view i h =
     (lastNotifiedPct h (notify_key i), getNotificationId i \<in> notifications h,
      events_about i h)"

text \<open>The values the loop computes for an account, by name.\<close>

definition limit_for :: "(string \<rightharpoonup> account_conf) \<Rightarrow> account \<Rightarrow> rat" where
  "limit_for perAccount a = limit_of (conf_of perAccount (acc_id a))"

definition threshold_for :: "(string \<rightharpoonup> account_conf) \<Rightarrow> account \<Rightarrow> rat" where
  "threshold_for perAccount a = threshold_of (conf_of perAccount (acc_id a))"

text \<open>An account the loop does not skip: monitoring is active and a limit is set.\<close>

definition monitored :: "(string \<rightharpoonup> account_conf) \<Rightarrow> account \<Rightarrow> bool" where
  "monitored perAccount a =
     (active_of (conf_of perAccount (acc_id a)) \<and> 0 < limit_for perAccount a)"

definition pct_for ::
  "(string \<rightharpoonup> account_conf) \<Rightarrow> (string \<Rightarrow> usage_result) \<Rightarrow> account \<Rightarrow> rat" where
  "pct_for perAccount sumAccountBytes a =
     (case sumAccountBytes (acc_id a) of
        Bytes u \<Rightarrow> pctUsed_of u (limit_for perAccount a)
      | Failed \<Rightarrow> 0)"

text \<open>An account of the pass whose usage was computed and is at or above its threshold.\<close>

definition over_threshold ::
  "(string \<rightharpoonup> account_conf) \<Rightarrow> (string \<Rightarrow> usage_result) \<Rightarrow> string option \<Rightarrow>
   account \<Rightarrow> bool" where
  "over_threshold perAccount sumAccountBytes onlyAccountId a =
     (\<not> out_of_scope onlyAccountId a \<and> monitored perAccount a \<and>
      sumAccountBytes (acc_id a) \<noteq> Failed \<and>
      threshold_for perAccount a \<le> pct_for perAccount sumAccountBytes a)"

definition top_of :: "pass_state \<Rightarrow> int \<times> string option" where
  "top_of s = (topBadgePercent s, topBadgeAccountName s)"

text \<open>\<open>Math.floor(pctUsed)\<close> of an account.\<close>

definition floored_for ::
  "(string \<rightharpoonup> account_conf) \<Rightarrow> (string \<Rightarrow> usage_result) \<Rightarrow> account \<Rightarrow> int" where
  "floored_for perAccount sumAccountBytes a = \<lfloor>pct_for perAccount sumAccountBytes a\<rfloor>"

text \<open>The title the badge gets for an account: its name, else its id, else the default.\<close>

definition title_for :: "string \<Rightarrow> account \<Rightarrow> string" where
  "title_for extShortName a =
     (if acc_name a \<noteq> [] then acc_name a
      else if acc_id a \<noteq> [] then acc_id a else defaultTitle extShortName)"

text \<open>The badge a pass leaves, from the accounts at or above their thresholds.\<close>

definition badge_for ::
  "string \<Rightarrow> (string \<rightharpoonup> account_conf) \<Rightarrow> (string \<Rightarrow> usage_result) \<Rightarrow> account list \<Rightarrow>
   badge_text \<times> string" where
  "badge_for ext pa us over =
     (let p = fold max (map (floored_for pa us) over) (- 1) in
      if 0 \<le> p
      then (BadgePercent p,
            let n = display_name (hd (filter (\<lambda>a. floored_for pa us a = p) over))
            in if n \<noteq> [] then n else defaultTitle ext)
      else (BadgeEmpty, defaultTitle ext))"

text \<open>Two host states that differ at most in their traces.\<close>

definition same_but_trace :: "host \<Rightarrow> host \<Rightarrow> bool" where
  "same_but_trace h h' =
     (lastNotifiedPct h = lastNotifiedPct h' \<and> notifications h = notifications h' \<and>
      badgeText h = badgeText h' \<and> badgeTitle h = badgeTitle h')"

text \<open>Two loop states that agree but for the events about one account.\<close>

definition agree_except :: "string \<Rightarrow> pass_state \<Rightarrow> pass_state \<Rightarrow> bool" where
  "agree_except i s s' =
     (same_but_trace (hst s) (hst s') \<and> top_of s = top_of s' \<and>
      filter (\<lambda>e. \<not> about i e) (trace (hst s)) = filter (\<lambda>e. \<not> about i e) (trace (hst s')))"

subsection \<open>Rounding and idempotence\<close>

text \<open>
  \<open>r\<close> is \<open>x\<close> rounded to one decimal place, in doubles: \<open>r\<close> is the double of a
  number of tenths \<open>k / 10\<close> that is no further than half a tenth from \<open>x\<close>, up to the
  rounding error of one double operation on \<open>x\<close>.
\<close>

definition rounded_to_one_decimal :: "rat \<Rightarrow> rat \<Rightarrow> bool" where
  "rounded_to_one_decimal x r =
     (\<exists>k::int. r = to_double (of_int k / 10) \<and>
        \<bar>of_int k / 10 - x\<bar> \<le> 1 / 20 + \<bar>x\<bar> / 2 ^ 53)"

text \<open>
  A threshold with at most one decimal place: the double of a number of tenths that is
  not negative (and below \<open>2^52\<close> tenths). The whole percentages of the options page
  are of this kind.
\<close>

definition one_decimal :: "rat \<Rightarrow> bool" where
  "one_decimal t =
     (let n = \<lfloor>t * 10 + 1 / 2\<rfloor>
      in 0 \<le> n \<and> n < 2 ^ 52 \<and> t = to_double (of_int n / 10))"

text \<open>The notifications created on a host so far.\<close>

definition created :: "host \<Rightarrow> event list" where
  "created h = filter is_create (trace h)"

text \<open>The stored percentage of an account is the one its last computed usage rounds to.\<close>

definition settled ::
  "(string \<rightharpoonup> account_conf) \<Rightarrow> (string \<Rightarrow> usage_result) \<Rightarrow> host \<Rightarrow> account \<Rightarrow> bool" where
  "settled pa us h a =
     (case us (acc_id a) of
        Failed \<Rightarrow> True
      | Bytes u \<Rightarrow>
          monitored pa a \<longrightarrow>
          lastNotifiedPct h (notify_key (acc_id a)) =
            Some (storePct_of (pctUsed_of u (limit_for pa a))))"

subsection \<open>Listings and timers\<close>




text \<open>The timers of the quota check, and all others.\<close>

definition quota_timers :: "alarms \<Rightarrow> alarms" where
  "quota_timers alarms = filter (\<lambda>a. fst a = ''quota-check'') alarms"

definition other_timers :: "alarms \<Rightarrow> alarms" where
  "other_timers alarms = filter (\<lambda>a. fst a \<noteq> ''quota-check'') alarms"

section \<open>A scenario\<close>

text \<open>
  One account with a limit of 10 GiB and the threshold 80, on a host that has stored and
  shown nothing yet; its usage is a parameter.
\<close>

definition scn_acc :: account where
  "scn_acc = \<lparr>acc_id = ''account1'', acc_name = ''Work''\<rparr>"

definition scn_conf :: "string \<rightharpoonup> account_conf" where
  "scn_conf = [''account1'' \<mapsto>
     \<lparr>conf_active = Some True, conf_limitBytes = Some 10737418240,
      conf_thresholdPct = Some 80\<rparr>]"

definition scn_usage :: "rat \<Rightarrow> string \<Rightarrow> usage_result" where
  "scn_usage used = (\<lambda>i. if i = ''account1'' then Bytes used else Failed)"

definition scn_host :: host where
  "scn_host = \<lparr>lastNotifiedPct = Map.empty, notifications = {}, badgeText = BadgeEmpty,
     badgeTitle = ''MFA'', trace = []\<rparr>"

text \<open>The same account with monitoring switched off, a host on which the account has been
  notified at 85 percent, and a second account.\<close>

definition scn_conf_off :: "string \<rightharpoonup> account_conf" where
  "scn_conf_off = [''account1'' \<mapsto>
     \<lparr>conf_active = Some False, conf_limitBytes = Some 10737418240,
      conf_thresholdPct = Some 80\<rparr>]"

definition scn_host_notified :: host where
  "scn_host_notified =
     \<lparr>lastNotifiedPct = [notify_key ''account1'' \<mapsto> 85],
      notifications = {''quota-account1''}, badgeText = BadgePercent 85,
      badgeTitle = ''Work'', trace = []\<rparr>"

definition scn_acc2 :: account where
  "scn_acc2 = \<lparr>acc_id = ''account2'', acc_name = ''Home''\<rparr>"

definition scn2_conf :: "string \<rightharpoonup> account_conf" where
  "scn2_conf = [''account1'' \<mapsto>
       \<lparr>conf_active = Some True, conf_limitBytes = Some 1000, conf_thresholdPct = Some 80\<rparr>,
     ''account2'' \<mapsto>
       \<lparr>conf_active = Some True, conf_limitBytes = Some 2000, conf_thresholdPct = Some 90\<rparr>]"

definition scn2_usage :: "string \<Rightarrow> usage_result" where
  "scn2_usage = (\<lambda>i. if i = ''account1'' then Bytes 820 else Bytes 1900)"

text \<open>A threshold with two decimal places: the double \<open>80.01\<close>.\<close>

definition scn_conf_fractional :: "string \<rightharpoonup> account_conf" where
  "scn_conf_fractional = [''account1'' \<mapsto>
     \<lparr>conf_active = Some True, conf_limitBytes = Some 10000,
      conf_thresholdPct = Some (to_double (8001 / 100))\<rparr>]"

text \<open>
  Configurations at which the double percentage differs from the exact one: 57 of 100
  bytes with the threshold 57, and limits of 25 GiB and 5 GiB with the threshold 50.
\<close>

definition scn_conf_57 :: "string \<rightharpoonup> account_conf" where
  "scn_conf_57 = [''account1'' \<mapsto>
     \<lparr>conf_active = Some True, conf_limitBytes = Some 100, conf_thresholdPct = Some 57\<rparr>]"

definition scn_conf_25gib :: "string \<rightharpoonup> account_conf" where
  "scn_conf_25gib = [''account1'' \<mapsto>
     \<lparr>conf_active = Some True, conf_limitBytes = Some 26843545600,
      conf_thresholdPct = Some 50\<rparr>]"

definition scn_conf_5gib :: "string \<rightharpoonup> account_conf" where
  "scn_conf_5gib = [''account1'' \<mapsto>
     \<lparr>conf_active = Some True, conf_limitBytes = Some 5368709120,
      conf_thresholdPct = Some 50\<rparr>]"



lemmas scn_defs = scn_acc_def scn_conf_def scn_usage_def scn_host_def scn_conf_off_def
  scn_host_notified_def scn_acc2_def scn2_conf_def scn2_usage_def scn_conf_57_def
  scn_conf_25gib_def scn_conf_5gib_def

lemmas conf_defs = out_of_scope_def monitored_def conf_of_def active_of_def limit_for_def
  limit_of_def threshold_for_def threshold_of_def lastPct_of_def

section \<open>Lemmas\<close>

subsection \<open>Double arithmetic\<close>

lemma round_even_between:
  "\<lfloor>y\<rfloor> \<le> round_even y \<and> round_even y \<le> \<lfloor>y\<rfloor> + 1"
  by (simp add: round_even_def Let_def)

lemma round_even_of_int [simp]: "round_even (of_int n) = n"
  by (simp add: round_even_def)

lemma round_even_ge: "of_int n \<le> y \<Longrightarrow> n \<le> round_even y"
proof -
  assume "of_int n \<le> y"
  then have "n \<le> \<lfloor>y\<rfloor>" by (simp add: le_floor_iff)
  with round_even_between [of y] show ?thesis by linarith
qed

lemma round_even_err: "\<bar>of_int (round_even y) - y\<bar> \<le> 1 / 2"
proof -
  have "of_int \<lfloor>y\<rfloor> \<le> y" "y < of_int \<lfloor>y\<rfloor> + 1" by linarith+
  then show ?thesis
    by (auto simp: round_even_def Let_def abs_le_iff)
qed

lemma pow2_pos [simp]: "0 < (2::rat) powi k"
  by (simp add: power_int_def)

lemma pow2_less_imp: "(2::rat) powi a < 2 powi b \<Longrightarrow> a < b"
proof (rule ccontr)
  assume l: "(2::rat) powi a < 2 powi b" and "\<not> a < b"
  then have "b \<le> a" by simp
  then have "(2::rat) powi b \<le> 2 powi a" by (intro power_int_increasing) simp_all
  with l show False by simp
qed

lemma expo_bracket:
  assumes "0 < x"
  shows "2 powi expo x \<le> x \<and> x < 2 powi (expo x + 1)"
proof (cases "1 \<le> x")
  case True
  let ?n = "\<lfloor>x\<rfloor>"
  have n: "0 < ?n" using True by simp
  from bitlen_bounds [OF n] have b: "2 ^ nat (bitlen ?n - 1) \<le> ?n" "?n < 2 ^ nat (bitlen ?n)"
    by simp_all
  have b1: "1 \<le> bitlen ?n" using n by (simp add: bitlen_alt_def)
  have e: "expo x = bitlen ?n - 1" using True by (simp add: expo_def)
  have "(2::rat) ^ nat (bitlen ?n - 1) \<le> of_int ?n"
    using b(1) by (metis of_int_le_iff of_int_numeral of_int_power)
  also have "\<dots> \<le> x" by simp
  finally have lo: "2 powi expo x \<le> x"
    using b1 by (simp add: e power_int_def)
  have "?n + 1 \<le> 2 ^ nat (bitlen ?n)" using b(2) by simp
  then have up: "(of_int (?n + 1) :: rat) \<le> 2 ^ nat (bitlen ?n)"
    by (metis of_int_le_iff of_int_numeral of_int_power)
  have "x < of_int (?n + 1)" by linarith
  also note up
  finally have "x < 2 ^ nat (bitlen ?n)" .
  then have hi: "x < 2 powi (expo x + 1)"
    using b1 by (simp add: e power_int_def)
  from lo hi show ?thesis by simp
next
  case False
  let ?y = "1 / x"
  let ?m = "\<lceil>?y\<rceil> - 1"
  let ?j = "bitlen ?m"
  have y1: "1 < ?y" using False assms by simp
  then have m: "0 < ?m" by simp
  from bitlen_bounds [OF m] have b: "2 ^ nat (?j - 1) \<le> ?m" "?m < 2 ^ nat ?j"
    by simp_all
  have j1: "1 \<le> ?j" using m by (simp add: bitlen_alt_def)
  have e: "expo x = - ?j" using False by (simp add: expo_def)
  have "?m + 1 \<le> 2 ^ nat ?j" using b(2) by simp
  then have up: "(of_int (?m + 1) :: rat) \<le> 2 ^ nat ?j"
    by (metis of_int_le_iff of_int_numeral of_int_power)
  have "?y \<le> of_int (?m + 1)" by simp
  also note up
  finally have "?y \<le> 2 ^ nat ?j" .
  then have "1 \<le> x * 2 ^ nat ?j" using assms by (simp add: field_simps)
  then have "1 / 2 ^ nat ?j \<le> x" by (simp add: field_simps)
  then have lo: "2 powi expo x \<le> x"
    using j1 by (simp add: e power_int_def field_simps)
  have "(2::rat) ^ nat (?j - 1) \<le> of_int ?m"
    using b(1) by (metis of_int_le_iff of_int_numeral of_int_power)
  also have "of_int ?m < ?y" by linarith
  finally have "(2::rat) ^ nat (?j - 1) < ?y" .
  then have "x * 2 ^ nat (?j - 1) < 1" using assms by (simp add: field_simps)
  then have "x < 1 / 2 ^ nat (?j - 1)" by (simp add: field_simps)
  moreover have "(2::rat) powi (expo x + 1) = 1 / 2 ^ nat (?j - 1)"
    using j1 by (simp add: e power_int_def field_simps nat_diff_distrib)
  ultimately have hi: "x < 2 powi (expo x + 1)" by simp
  from lo hi show ?thesis by simp
qed

lemma expo_unique:
  assumes "0 < x" "2 powi k \<le> x" "x < 2 powi (k + 1)"
  shows "expo x = k"
proof -
  from expo_bracket [OF assms(1)] have b: "2 powi expo x \<le> x" "x < 2 powi (expo x + 1)"
    by simp_all
  have "(2::rat) powi expo x < 2 powi (k + 1)" using b(1) assms(3) by simp
  then have 1: "expo x < k + 1" by (rule pow2_less_imp)
  have "(2::rat) powi k < 2 powi (expo x + 1)" using b(2) assms(2) by simp
  then have 2: "k < expo x + 1" by (rule pow2_less_imp)
  from 1 2 show ?thesis by simp
qed

lemma ulp_split: "(2::rat) powi (e - 52) = 2 powi e / 2 ^ 52"
  by (simp add: power_int_diff)

lemma to_double_nonneg: "0 \<le> x \<Longrightarrow> 0 \<le> to_double x"
proof (cases "x = 0")
  case True
  then show ?thesis by (simp add: to_double_def)
next
  case False
  assume "0 \<le> x"
  let ?u = "(2::rat) powi (expo \<bar>x\<bar> - 52)"
  have "of_int 0 \<le> x / ?u" using \<open>0 \<le> x\<close> by simp
  then have "0 \<le> round_even (x / ?u)" by (rule round_even_ge)
  then show ?thesis using False by (simp add: to_double_def Let_def)
qed

lemma to_double_err: "\<bar>to_double x - x\<bar> \<le> \<bar>x\<bar> / 2 ^ 53"
proof (cases "x = 0")
  case True
  then show ?thesis by (simp add: to_double_def)
next
  case False
  let ?e = "expo \<bar>x\<bar>"
  let ?u = "(2::rat) powi (?e - 52)"
  have u: "0 < ?u" by simp
  have "0 < \<bar>x\<bar>" using False by simp
  from expo_bracket [OF this] have "2 powi ?e \<le> \<bar>x\<bar>" by simp
  then have ub: "?u \<le> \<bar>x\<bar> / 2 ^ 52" by (simp add: ulp_split divide_right_mono)
  have "to_double x - x = (of_int (round_even (x / ?u)) - x / ?u) * ?u"
    using False by (simp add: to_double_def Let_def algebra_simps)
  then have "\<bar>to_double x - x\<bar> = \<bar>of_int (round_even (x / ?u)) - x / ?u\<bar> * ?u"
    by (simp add: abs_mult)
  also have "\<dots> \<le> 1 / 2 * ?u"
    using round_even_err [of "x / ?u"] u by (intro mult_right_mono) simp_all
  also have "\<dots> \<le> 1 / 2 * (\<bar>x\<bar> / 2 ^ 52)" using ub by simp
  also have "\<dots> = \<bar>x\<bar> / 2 ^ 53" by simp
  finally show ?thesis .
qed

lemma to_double_of_int:
  assumes "0 \<le> n" "n < 2 ^ 53"
  shows "to_double (of_int n) = of_int n"
proof (cases "n = 0")
  case True
  then show ?thesis by (simp add: to_double_def)
next
  case False
  let ?x = "of_int n :: rat"
  let ?e = "expo \<bar>?x\<bar>"
  have pos: "0 < \<bar>?x\<bar>" using False by simp
  have ax: "\<bar>?x\<bar> = ?x" using assms(1) by simp
  from expo_bracket [OF pos] have lo: "2 powi ?e \<le> ?x" by (simp add: ax)
  have "?x < 2 ^ 53" using assms(2) by (metis of_int_less_iff of_int_numeral of_int_power)
  then have "(2::rat) powi ?e < 2 powi 53" using lo by simp
  then have e: "?e < 53" by (rule pow2_less_imp)
  define k where "k = nat (52 - ?e)"
  have u: "(2::rat) powi (?e - 52) = 1 / 2 ^ k"
    using e by (simp add: k_def power_int_def field_simps)
  have "?x / (2 powi (?e - 52)) = of_int (n * 2 ^ k)" by (simp add: u)
  then have "round_even (?x / (2 powi (?e - 52))) = n * 2 ^ k"
    by (simp only: round_even_of_int)
  then show ?thesis using False by (simp add: to_double_def Let_def u)
qed

text \<open>Rounding does not cross a number that rounding leaves alone.\<close>

lemma to_double_ge:
  assumes r: "to_double r = r" and "0 < r" and "r \<le> x"
  shows "r \<le> to_double x"
proof -
  have x: "0 < x" "x \<noteq> 0" "\<bar>x\<bar> = x" using assms by simp_all
  let ?e = "expo x"
  let ?u = "(2::rat) powi (?e - 52)"
  have u: "0 < ?u" by simp
  from expo_bracket [OF x(1)] have b: "2 powi ?e \<le> x" "x < 2 powi (?e + 1)" by simp_all
  have tx: "to_double x = of_int (round_even (x / ?u)) * ?u"
    using x by (simp add: to_double_def Let_def)
  show ?thesis
  proof (cases "r < 2 powi ?e")
    case True
    have "(2::rat) powi ?e / ?u = 2 ^ 52" by (simp add: ulp_split)
    then have "of_int (2 ^ 52) \<le> x / ?u"
      using b(1) u by (simp add: ulp_split field_simps)
    then have "2 ^ 52 \<le> round_even (x / ?u)" by (rule round_even_ge)
    then have "(of_int (2 ^ 52) :: rat) \<le> of_int (round_even (x / ?u))"
      by (simp only: of_int_le_iff)
    then have m1: "of_int (2 ^ 52) * ?u \<le> of_int (round_even (x / ?u)) * ?u"
      using u by (intro mult_right_mono) simp_all
    have "2 powi ?e = of_int (2 ^ 52) * ?u" by (simp add: ulp_split)
    also note m1
    also have "of_int (round_even (x / ?u)) * ?u = to_double x" by (simp only: tx)
    finally have "2 powi ?e \<le> to_double x" .
    with True show ?thesis by simp
  next
    case False
    then have "2 powi ?e \<le> r" by simp
    moreover have "r < 2 powi (?e + 1)" using assms(3) b(2) by simp
    ultimately have er: "expo r = ?e" using assms(2) by (intro expo_unique) simp_all
    have ar: "\<bar>r\<bar> = r" "r \<noteq> 0" using assms(2) by simp_all
    have "to_double r = of_int (round_even (r / ?u)) * ?u"
      using ar by (simp add: to_double_def Let_def er)
    with r have rr: "r = of_int (round_even (r / ?u)) * ?u" by simp
    then have ri: "r / ?u = of_int (round_even (r / ?u))" using u by (simp add: field_simps)
    have "r / ?u \<le> x / ?u" using assms(3) u by (simp add: divide_right_mono)
    then have "of_int (round_even (r / ?u)) \<le> x / ?u" using ri by simp
    then have "round_even (r / ?u) \<le> round_even (x / ?u)" by (rule round_even_ge)
    then have "(of_int (round_even (r / ?u)) :: rat) \<le> of_int (round_even (x / ?u))"
      by (simp only: of_int_le_iff)
    then have m2: "of_int (round_even (r / ?u)) * ?u \<le> of_int (round_even (x / ?u)) * ?u"
      using u by (intro mult_right_mono) simp_all
    note rr
    also note m2
    also have "of_int (round_even (x / ?u)) * ?u = to_double x" by (simp only: tx)
    finally show ?thesis .
  qed
qed

text \<open>Numbers of 53 significant bits are doubles, and rounding yields a double.\<close>

lemma to_double_dyadic:
  assumes "0 < m" "m < 2 ^ 53"
  shows "to_double (of_int m * 2 powi j) = of_int m * 2 powi j"
proof -
  define x :: rat where "x = of_int m * 2 powi j"
  define e where "e = expo x"
  have x: "0 < x" using assms(1) by (simp add: x_def)
  have ax: "\<bar>x\<bar> = x" using x by (rule abs_of_pos)
  have nz: "x \<noteq> 0" using x by linarith
  from expo_bracket [OF x] have lo: "2 powi e \<le> x" by (simp add: e_def)
  have "(of_int m :: rat) < 2 ^ 53"
    using assms(2) by (metis of_int_less_iff of_int_numeral of_int_power)
  then have "x < 2 ^ 53 * 2 powi j" by (simp add: x_def)
  also have "\<dots> = 2 powi (53 + j)" by (simp add: power_int_add)
  finally have "(2::rat) powi e < 2 powi (53 + j)" using lo by simp
  then have e: "e < 53 + j" by (rule pow2_less_imp)
  define k where "k = nat (j - (e - 52))"
  have "(2::rat) powi j = 2 powi (e - 52) * 2 powi (j - (e - 52))"
    by (simp add: power_int_add [symmetric])
  also have "(2::rat) powi (j - (e - 52)) = 2 ^ k"
    using e by (simp add: k_def power_int_def)
  finally have j: "(2::rat) powi j = 2 powi (e - 52) * 2 ^ k" .
  have "x / 2 powi (e - 52) = of_int (m * 2 ^ k)"
    by (simp add: x_def j)
  then have "round_even (x / 2 powi (e - 52)) = m * 2 ^ k"
    by (simp only: round_even_of_int)
  then have "to_double x = of_int (m * 2 ^ k) * 2 powi (e - 52)"
    using nz by (simp only: to_double_def Let_def ax if_False e_def)
  also have "\<dots> = x" by (simp add: x_def j)
  finally show ?thesis by (simp only: x_def)
qed

lemma to_double_range:
  assumes "0 < x"
  shows "2 ^ 52 \<le> round_even (x / 2 powi (expo x - 52)) \<and>
         round_even (x / 2 powi (expo x - 52)) \<le> 2 ^ 53"
proof -
  let ?u = "(2::rat) powi (expo x - 52)"
  from expo_bracket [OF assms] have b: "2 powi expo x \<le> x" "x < 2 powi (expo x + 1)"
    by simp_all
  have u: "0 < ?u" by simp
  have "(2::rat) powi expo x = 2 ^ 52 * ?u" by (simp add: ulp_split)
  then have "2 ^ 52 * ?u \<le> x" using b(1) by simp
  then have "of_int (2 ^ 52) \<le> x / ?u" using u by (simp add: field_simps)
  then have lo: "2 ^ 52 \<le> round_even (x / ?u)" by (rule round_even_ge)
  have "(2::rat) powi (expo x + 1) = 2 ^ 53 * ?u" by (simp add: ulp_split power_int_add)
  then have "x < 2 ^ 53 * ?u" using b(2) by simp
  then have "x / ?u < of_int (2 ^ 53)" using u by (simp add: field_simps)
  then have "\<lfloor>x / ?u\<rfloor> < 2 ^ 53" by (simp only: floor_less_iff)
  with round_even_between [of "x / ?u"] have hi: "round_even (x / ?u) \<le> 2 ^ 53" by linarith
  from lo hi show ?thesis by simp
qed

lemma to_double_pos: "0 < x \<Longrightarrow> 0 < to_double x"
proof -
  assume x: "0 < x"
  have "(0::int) < 2 ^ 52" by simp
  with to_double_range [OF x] have "0 < round_even (x / 2 powi (expo x - 52))" by linarith
  then show ?thesis using x by (simp add: to_double_def Let_def)
qed

lemma to_double_idem:
  assumes "0 < x"
  shows "to_double (to_double x) = to_double x"
proof -
  let ?n = "round_even (x / 2 powi (expo x - 52))"
  have y: "to_double x = of_int ?n * 2 powi (expo x - 52)"
    using assms by (simp add: to_double_def Let_def)
  from to_double_range [OF assms] have n: "2 ^ 52 \<le> ?n" "?n \<le> 2 ^ 53" by simp_all
  show ?thesis
  proof (cases "?n = 2 ^ 53")
    case True
    have "to_double x = of_int (2 ^ 53) * 2 powi (expo x - 52)"
      unfolding y True ..
    also have "\<dots> = of_int 1 * 2 powi (expo x + 1)"
      by (simp add: ulp_split power_int_add)
    finally have "to_double x = of_int 1 * 2 powi (expo x + 1)" .
    moreover have "to_double (of_int 1 * 2 powi (expo x + 1)) = of_int 1 * 2 powi (expo x + 1)"
      by (rule to_double_dyadic) simp_all
    ultimately show ?thesis by simp
  next
    case False
    have "(0::int) < 2 ^ 52" by simp
    with False n have "0 < ?n" "?n < 2 ^ 53" by linarith+
    then have "to_double (of_int ?n * 2 powi (expo x - 52)) = of_int ?n * 2 powi (expo x - 52)"
      by (rule to_double_dyadic)
    then show ?thesis by (simp only: y)
  qed
qed

subsection \<open>The arithmetic of the scenarios\<close>

lemma one_decimal_80: "one_decimal 80"
  by code_simp

lemma pct_85: "pctUsed_of 9126805504 10737418240 = 85"
  by code_simp

lemma pct_70: "pctUsed_of 7516192768 10737418240 = 70"
  by code_simp

lemma pct_82: "pctUsed_of 820 1000 = 82"
  by code_simp

lemma pct_95: "pctUsed_of 1900 2000 = 95"
  by code_simp

lemma store_85: "storePct_of 85 = 85"
  by code_simp

lemma pct_57_of_100: "pctUsed_of 57 100 = 8022036836253695 / 140737488355328"
  by code_simp

lemma pct_57_of_25gib:
  "pctUsed_of 15300820992 26843545600 = 8022036836253695 / 140737488355328"
  by code_simp

lemma floor_pct_57: "\<lfloor>8022036836253695 / 140737488355328 :: rat\<rfloor> = 56"
  by (simp add: floor_eq_iff)

lemma pct_5125: "pctUsed_of 2751463424 5368709120 = 7212796278210559 / 140737488355328"
  by code_simp

lemma store_5125:
  "storePct_of (7212796278210559 / 140737488355328) = 3602879701896397 / 70368744177664"
  by code_simp

lemma double_512: "to_double (512 / 10) = 3602879701896397 / 70368744177664"
  by code_simp

lemma double_8001: "to_double (8001 / 100) = 5630203221654897 / 70368744177664"
  by code_simp

lemma pct_8002: "pctUsed_of 8002 10000 = 5630906909096673 / 70368744177664"
  by code_simp

lemma store_8002: "storePct_of (5630906909096673 / 70368744177664) = 80"
  by code_simp

lemmas pct_evals = pct_85 pct_70 pct_82 pct_95 store_85 pct_57_of_100 pct_57_of_25gib
  floor_pct_57 pct_5125 store_5125 pct_8002 store_8002 double_8001

subsection \<open>Keys and ids\<close>

lemma notify_key_inj [simp]: "(notify_key a = notify_key b) = (a = b)"
  by (simp add: notify_key_def)

lemma getNotificationId_inj [simp]: "(getNotificationId a = getNotificationId b) = (a = b)"
  by (simp add: getNotificationId_def)

subsection \<open>A pass touches an account's state only in that account's step\<close>

lemma loop_body_frame:
  "acc_id b \<noteq> i \<or> out_of_scope only b \<Longrightarrow>
   account_view i (hst (loop_body pa us f only b s)) = account_view i (hst s)"
  by (auto simp: loop_body_def account_view_def events_about_def Let_def storage_set_def
      clearNotification_def notify_def log_event_def split: usage_result.splits)

lemma for_accounts_frame:
  "\<forall>b \<in> set xs. acc_id b \<noteq> i \<or> out_of_scope only b \<Longrightarrow>
   account_view i (hst (for_accounts pa us f only xs s)) = account_view i (hst s)"
  by (induction xs arbitrary: s) (simp_all add: loop_body_frame)

lemma for_accounts_append:
  "for_accounts pa us f only (xs @ ys) s =
   for_accounts pa us f only ys (for_accounts pa us f only xs s)"
  by (induction xs arbitrary: s) simp_all

lemma loop_body_view_cong:
  "account_view (acc_id a) (hst s) = account_view (acc_id a) (hst s') \<Longrightarrow>
   account_view (acc_id a) (hst (loop_body pa us f only a s)) =
   account_view (acc_id a) (hst (loop_body pa us f only a s'))"
  by (auto simp: loop_body_def account_view_def events_about_def Let_def storage_set_def
      lastPct_of_def clearNotification_def notify_def log_event_def
      split: usage_result.splits)

lemma setBadge_view [simp]: "account_view i (setBadge e p n h) = account_view i h"
  by (simp add: setBadge_def account_view_def events_about_def split: option.splits)

text \<open>
  With distinct account ids, what a pass does to the state of an account of the list is
  what the loop body does for that account on the state the pass started from.
\<close>

lemma pass_view:
  assumes d: "distinct (map acc_id accounts)" and m: "a \<in> set accounts"
  shows "account_view (acc_id a) (checkAllAccounts ext accounts pa us f only h) =
         account_view (acc_id a) (hst (loop_body pa us f only a
            \<lparr>hst = h, topBadgePercent = - 1, topBadgeAccountName = None\<rparr>))"
proof -
  from m obtain pre post where sp: "accounts = pre @ a # post"
    by (auto dest: split_list)
  with d have ni: "acc_id a \<notin> acc_id ` set pre" "acc_id a \<notin> acc_id ` set post"
    by auto
  have pre: "\<forall>b \<in> set pre. acc_id b \<noteq> acc_id a"
    using ni(1) by (metis imageI)
  have post: "\<forall>b \<in> set post. acc_id b \<noteq> acc_id a"
    using ni(2) by (metis imageI)
  let ?s0 = "\<lparr>hst = h, topBadgePercent = - 1, topBadgeAccountName = None\<rparr>"
  let ?s1 = "for_accounts pa us f only pre ?s0"
  have 1: "account_view (acc_id a) (hst ?s1) = account_view (acc_id a) (hst ?s0)"
    using pre by (intro for_accounts_frame) blast
  have 2: "account_view (acc_id a) (hst (loop_body pa us f only a ?s1)) =
           account_view (acc_id a) (hst (loop_body pa us f only a ?s0))"
    by (rule loop_body_view_cong [OF 1])
  have 3: "account_view (acc_id a)
             (hst (for_accounts pa us f only post (loop_body pa us f only a ?s1))) =
           account_view (acc_id a) (hst (loop_body pa us f only a ?s1))"
    using post by (intro for_accounts_frame) blast
  show ?thesis
    unfolding checkAllAccounts_def Let_def sp for_accounts_append
    by (simp add: 2 3)
qed

lemma pass_lastPct:
  "distinct (map acc_id accounts) \<Longrightarrow> a \<in> set accounts \<Longrightarrow>
   lastNotifiedPct (checkAllAccounts ext accounts pa us f only h) (notify_key (acc_id a)) =
   lastNotifiedPct (hst (loop_body pa us f only a
      \<lparr>hst = h, topBadgePercent = - 1, topBadgeAccountName = None\<rparr>))
     (notify_key (acc_id a))"
  using pass_view [of accounts a ext pa us f only h] by (simp add: account_view_def)

lemma pass_notification:
  "distinct (map acc_id accounts) \<Longrightarrow> a \<in> set accounts \<Longrightarrow>
   (getNotificationId (acc_id a) \<in>
      notifications (checkAllAccounts ext accounts pa us f only h)) =
   (getNotificationId (acc_id a) \<in> notifications (hst (loop_body pa us f only a
      \<lparr>hst = h, topBadgePercent = - 1, topBadgeAccountName = None\<rparr>)))"
  using pass_view [of accounts a ext pa us f only h] by (simp add: account_view_def)

lemma pass_events:
  "distinct (map acc_id accounts) \<Longrightarrow> a \<in> set accounts \<Longrightarrow>
   events_about (acc_id a) (checkAllAccounts ext accounts pa us f only h) =
   events_about (acc_id a) (hst (loop_body pa us f only a
      \<lparr>hst = h, topBadgePercent = - 1, topBadgeAccountName = None\<rparr>))"
  using pass_view [of accounts a ext pa us f only h] by (simp add: account_view_def)

subsection \<open>The step of one account\<close>

lemma body_events_monitored:
  assumes "\<not> out_of_scope only a" "monitored pa a" "us (acc_id a) = Bytes used"
  shows "events_about (acc_id a) (hst (loop_body pa us f only a s)) =
     events_about (acc_id a) (hst s) @ [SumAccountBytes (acc_id a)] @
     (if pctUsed_of used (limit_for pa a) < threshold_for pa a
      then [ClearNotification (getNotificationId (acc_id a))] else []) @
     (if (threshold_for pa a \<le> pctUsed_of used (limit_for pa a) \<and>
          lastPct_of (hst s) (acc_id a) < threshold_for pa a) \<or>
         (f \<and> threshold_for pa a \<le> pctUsed_of used (limit_for pa a))
      then [CreateNotification (getNotificationId (acc_id a)) used (limit_for pa a)
              (pctUsed_of used (limit_for pa a)) (threshold_for pa a)] else [])"
  using assms
  by (auto simp: loop_body_def monitored_def limit_for_def threshold_for_def Let_def
      events_about_def log_event_def clearNotification_def notify_def storage_set_def
      lastPct_of_def)

lemma body_lastPct_monitored:
  assumes "\<not> out_of_scope only a" "monitored pa a" "us (acc_id a) = Bytes used"
  shows "lastNotifiedPct (hst (loop_body pa us f only a s)) (notify_key (acc_id a)) =
     Some (storePct_of (pctUsed_of used (limit_for pa a)))"
  using assms
  by (auto simp: loop_body_def monitored_def limit_for_def threshold_for_def Let_def
      storage_set_def)

lemma body_notification_below:
  assumes "\<not> out_of_scope only a" "monitored pa a" "us (acc_id a) = Bytes used"
    "pctUsed_of used (limit_for pa a) < threshold_for pa a"
  shows "getNotificationId (acc_id a) \<notin> notifications (hst (loop_body pa us f only a s))"
  using assms
  by (auto simp: loop_body_def monitored_def limit_for_def threshold_for_def Let_def
      storage_set_def log_event_def clearNotification_def notify_def)

lemma body_unmonitored:
  assumes "\<not> out_of_scope only a" "\<not> monitored pa a"
  shows "hst (loop_body pa us f only a s) =
     storage_set (notify_key (acc_id a)) 0 (clearNotification (acc_id a) (hst s))"
  using assms
  by (auto simp: loop_body_def monitored_def limit_for_def Let_def)

lemma body_failed:
  assumes "\<not> out_of_scope only a" "monitored pa a" "us (acc_id a) = Failed"
  shows "hst (loop_body pa us f only a s) =
     log_event (ConsoleError (acc_id a)) (log_event (SumAccountBytes (acc_id a)) (hst s))"
  using assms
  by (auto simp: loop_body_def monitored_def limit_for_def Let_def)

subsection \<open>Counting events\<close>

lemma usage_calls_about: "usage_calls i h = count_list (events_about i h) (SumAccountBytes i)"
proof -
  have "count_list (filter (about i) tr) (SumAccountBytes i) = count_list tr (SumAccountBytes i)"
    for tr
    by (induction tr) auto
  then show ?thesis by (simp add: usage_calls_def events_about_def)
qed

subsection \<open>Rounding\<close>

lemma math_round_err: "\<bar>of_int (math_round q) - q\<bar> \<le> 1 / 2"
proof -
  have "of_int \<lfloor>q + 1 / 2\<rfloor> - q \<le> 1 / 2" "- (of_int \<lfloor>q + 1 / 2\<rfloor> - q) \<le> 1 / 2"
    by linarith+
  then show ?thesis unfolding math_round_def by (simp only: abs_le_iff)
qed

lemma storePct_rounded: "rounded_to_one_decimal x (storePct_of x)"
proof -
  let ?q = "js_mul x 10"
  let ?k = "math_round ?q"
  have "\<bar>?q - x * 10\<bar> \<le> \<bar>x * 10\<bar> / 2 ^ 53"
    unfolding js_mul_def by (rule to_double_err)
  then have q: "\<bar>?q - x * 10\<bar> \<le> \<bar>x\<bar> * 10 / 2 ^ 53" by (simp add: abs_mult)
  have k: "\<bar>of_int ?k - ?q\<bar> \<le> 1 / 2" by (rule math_round_err)
  have "\<bar>of_int ?k - x * 10\<bar> \<le> 1 / 2 + \<bar>x\<bar> * 10 / 2 ^ 53"
    using q k by linarith
  then have "\<bar>(of_int ?k / 10 - x) * 10\<bar> \<le> (1 / 20 + \<bar>x\<bar> / 2 ^ 53) * 10"
    by (simp add: algebra_simps)
  then have "\<bar>of_int ?k / 10 - x\<bar> * 10 \<le> (1 / 20 + \<bar>x\<bar> / 2 ^ 53) * 10"
    by (simp only: abs_mult abs_numeral)
  then have "\<bar>of_int ?k / 10 - x\<bar> \<le> 1 / 20 + \<bar>x\<bar> / 2 ^ 53"
    by (simp only: mult_le_cancel_right_pos zero_less_numeral)
  moreover have "storePct_of x = to_double (of_int ?k / 10)"
    by (simp add: storePct_of_def js_div_def)
  ultimately show ?thesis
    unfolding rounded_to_one_decimal_def by blast
qed

subsection \<open>The badge\<close>

lemma top_step:
  "top_of (loop_body pa us f only a s) =
     (if over_threshold pa us only a \<and> topBadgePercent s < floored_for pa us a
      then (floored_for pa us a, Some (display_name a)) else top_of s)"
  by (auto simp: loop_body_def top_of_def over_threshold_def monitored_def limit_for_def
      threshold_for_def pct_for_def floored_for_def Let_def split: usage_result.splits)

lemma fold_max_ge: "(p::int) \<le> fold max ys p"
  by (induction ys arbitrary: p) (auto intro: order_trans [OF max.cobounded2])

lemma top_fold:
  "top_of (for_accounts pa us f only xs s) =
     (let over = filter (over_threshold pa us only) xs;
          p = fold max (map (floored_for pa us) over) (topBadgePercent s)
      in (p, if topBadgePercent s < p
             then Some (display_name (hd (filter (\<lambda>a. floored_for pa us a = p) over)))
             else topBadgeAccountName s))"
proof (induction xs arbitrary: s)
  case Nil
  show ?case by (simp add: top_of_def)
next
  case (Cons a xs)
  let ?s1 = "loop_body pa us f only a s"
  let ?fl = "floored_for pa us"
  let ?over = "filter (over_threshold pa us only) xs"
  have st: "top_of ?s1 = (if over_threshold pa us only a \<and> topBadgePercent s < ?fl a
      then (?fl a, Some (display_name a)) else top_of s)"
    by (rule top_step)
  show ?case
  proof (cases "over_threshold pa us only a")
    case False
    with st have "top_of ?s1 = top_of s" by simp
    then have "topBadgePercent ?s1 = topBadgePercent s"
      "topBadgeAccountName ?s1 = topBadgeAccountName s"
      by (simp_all add: top_of_def)
    with False Cons.IH [of ?s1] show ?thesis by (simp add: Let_def)
  next
    case True
    show ?thesis
    proof (cases "topBadgePercent s < ?fl a")
      case lt: True
      with st True have "top_of ?s1 = (?fl a, Some (display_name a))" by simp
      then have t1: "topBadgePercent ?s1 = ?fl a"
        "topBadgeAccountName ?s1 = Some (display_name a)"
        by (simp_all add: top_of_def)
      have mx: "max (?fl a) (topBadgePercent s) = ?fl a" using lt by simp
      have ge: "?fl a \<le> fold max (map ?fl ?over) (?fl a)" by (rule fold_max_ge)
      show ?thesis using True lt ge Cons.IH [of ?s1]
        by (auto simp: t1 mx Let_def)
    next
      case ge: False
      with st have "top_of ?s1 = top_of s" by simp
      then have t1: "topBadgePercent ?s1 = topBadgePercent s"
        "topBadgeAccountName ?s1 = topBadgeAccountName s"
        by (simp_all add: top_of_def)
      have mx: "max (?fl a) (topBadgePercent s) = topBadgePercent s" using ge by simp
      show ?thesis using True ge Cons.IH [of ?s1]
        by (auto simp: t1 mx Let_def)
    qed
  qed
qed

lemma pass_badge:
  "(badgeText (checkAllAccounts ext accounts pa us f only h),
    badgeTitle (checkAllAccounts ext accounts pa us f only h)) =
   badge_for ext pa us (filter (over_threshold pa us only) accounts)"
proof -
  let ?init = "\<lparr>hst = h, topBadgePercent = - 1, topBadgeAccountName = None\<rparr>"
  let ?fin = "for_accounts pa us f only accounts ?init"
  let ?over = "filter (over_threshold pa us only) accounts"
  let ?p = "fold max (map (floored_for pa us) ?over) (- 1)"
  have "top_of ?fin = (?p, if - 1 < ?p
      then Some (display_name (hd (filter (\<lambda>a. floored_for pa us a = ?p) ?over))) else None)"
    using top_fold [where xs = accounts and s = ?init and pa = pa and us = us and f = f and only = only]
    by (simp add: Let_def)
  then have t: "topBadgePercent ?fin = ?p"
    "topBadgeAccountName ?fin = (if - 1 < ?p
      then Some (display_name (hd (filter (\<lambda>a. floored_for pa us a = ?p) ?over))) else None)"
    by (simp_all add: top_of_def)
  show ?thesis
    unfolding checkAllAccounts_def Let_def t badge_for_def
    by (simp add: setBadge_def)
qed

subsection \<open>Accounts that are skipped\<close>

lemma loop_body_usage_cong:
  assumes "\<not> monitored pa a \<or> out_of_scope only a" "\<forall>i. i \<noteq> acc_id a \<longrightarrow> us i = us' i"
  shows "loop_body pa us f only b s = loop_body pa us' f only b s"
proof (cases "acc_id b = acc_id a")
  case True
  then have "\<not> monitored pa b \<or> out_of_scope only b"
    using assms(1) by (auto simp: monitored_def limit_for_def out_of_scope_def split: option.splits)
  then show ?thesis
    by (auto simp: loop_body_def monitored_def limit_for_def Let_def)
next
  case False
  then have "us (acc_id b) = us' (acc_id b)" using assms(2) by simp
  then show ?thesis by (simp add: loop_body_def Let_def)
qed

lemma for_accounts_usage_cong:
  assumes "\<not> monitored pa a \<or> out_of_scope only a" "\<forall>i. i \<noteq> acc_id a \<longrightarrow> us i = us' i"
  shows "for_accounts pa us f only xs s = for_accounts pa us' f only xs s"
  by (induction xs arbitrary: s) (simp_all add: loop_body_usage_cong [OF assms])

subsection \<open>Accounts that take no part in the badge\<close>

lemma over_threshold_id:
  "acc_id b = acc_id a \<Longrightarrow> over_threshold pa us only b = over_threshold pa us only a"
  by (auto simp: over_threshold_def out_of_scope_def monitored_def limit_for_def
      threshold_for_def pct_for_def split: option.splits usage_result.splits)

lemma not_over_filter:
  assumes "\<not> over_threshold pa us only a"
  shows "filter (over_threshold pa us only) (filter (\<lambda>b. acc_id b \<noteq> acc_id a) accounts) =
         filter (over_threshold pa us only) accounts"
proof -
  have "over_threshold pa us only b \<Longrightarrow> acc_id b \<noteq> acc_id a" for b
    using assms over_threshold_id [of b a pa us only] by blast
  then show ?thesis
    by (induction accounts) auto
qed

subsection \<open>A pass with and without a failing account\<close>

lemma agree_step_both:
  "agree_except i s s' \<Longrightarrow>
   agree_except i (loop_body pa us f only b s) (loop_body pa us f only b s')"
  by (auto simp: agree_except_def same_but_trace_def top_of_def loop_body_def Let_def
      storage_set_def clearNotification_def notify_def log_event_def lastPct_of_def
      split: usage_result.splits)

lemma agree_step_failed:
  assumes "us (acc_id a) = Failed" "monitored pa a" "agree_except (acc_id a) s s'"
  shows "agree_except (acc_id a) (loop_body pa us f only a s) s'"
  using assms
  by (auto simp: agree_except_def same_but_trace_def top_of_def loop_body_def Let_def
      storage_set_def clearNotification_def notify_def log_event_def lastPct_of_def
      monitored_def limit_for_def)

lemma monitored_id: "acc_id b = acc_id a \<Longrightarrow> monitored pa b = monitored pa a"
  by (simp add: monitored_def limit_for_def)

lemma agree_for_accounts:
  assumes "us i = Failed" "\<forall>b \<in> set xs. acc_id b = i \<longrightarrow> monitored pa b"
    "agree_except i s s'"
  shows "agree_except i (for_accounts pa us f only xs s)
           (for_accounts pa us f only (filter (\<lambda>b. acc_id b \<noteq> i) xs) s')"
  using assms(2,3)
proof (induction xs arbitrary: s s')
  case Nil
  then show ?case by simp
next
  case (Cons b xs)
  show ?case
  proof (cases "acc_id b = i")
    case True
    with Cons.prems have m: "monitored pa b" by simp
    have "agree_except i (loop_body pa us f only b s) s'"
      using agree_step_failed [of us b pa s s' f only] True assms(1) m Cons.prems(2) by simp
    with Cons.IH [of "loop_body pa us f only b s" s'] Cons.prems(1) True
    show ?thesis by simp
  next
    case False
    have "agree_except i (loop_body pa us f only b s) (loop_body pa us f only b s')"
      by (rule agree_step_both [OF Cons.prems(2)])
    with Cons.IH [of "loop_body pa us f only b s" "loop_body pa us f only b s'"]
      Cons.prems(1) False
    show ?thesis by simp
  qed
qed

lemma agree_pass:
  assumes "us i = Failed" "\<forall>b \<in> set accounts. acc_id b = i \<longrightarrow> monitored pa b"
  shows "same_but_trace (checkAllAccounts ext accounts pa us f only h)
           (checkAllAccounts ext (filter (\<lambda>b. acc_id b \<noteq> i) accounts) pa us f only h) \<and>
         filter (\<lambda>e. \<not> about i e) (trace (checkAllAccounts ext accounts pa us f only h)) =
         filter (\<lambda>e. \<not> about i e)
           (trace (checkAllAccounts ext (filter (\<lambda>b. acc_id b \<noteq> i) accounts) pa us f only h))"
proof -
  let ?init = "\<lparr>hst = h, topBadgePercent = - 1, topBadgeAccountName = None\<rparr>"
  have "agree_except i ?init ?init"
    by (simp add: agree_except_def same_but_trace_def)
  then have "agree_except i (for_accounts pa us f only accounts ?init)
           (for_accounts pa us f only (filter (\<lambda>b. acc_id b \<noteq> i) accounts) ?init)"
    by (rule agree_for_accounts [where us = us and i = i, OF assms])
  then show ?thesis
    by (auto simp: agree_except_def same_but_trace_def top_of_def checkAllAccounts_def
        Let_def setBadge_def)
qed

subsection \<open>The worst account\<close>

lemma floored_nonneg:
  assumes "over_threshold pa us only b" "\<forall>u. us (acc_id b) = Bytes u \<longrightarrow> 0 \<le> u"
  shows "0 \<le> floored_for pa us b"
proof (cases "us (acc_id b)")
  case Failed
  with assms(1) show ?thesis by (simp add: over_threshold_def)
next
  case (Bytes u)
  with assms(2) have "0 \<le> u" by simp
  moreover have "0 < limit_for pa b" using assms(1) by (simp add: over_threshold_def monitored_def)
  ultimately have "0 \<le> u / limit_for pa b" by simp
  then have "0 \<le> to_double (u / limit_for pa b) * 100"
    using to_double_nonneg by simp
  then have "0 \<le> pctUsed_of u (limit_for pa b)"
    unfolding pctUsed_of_def js_mul_def js_div_def by (rule to_double_nonneg)
  then show ?thesis using Bytes by (simp add: floored_for_def pct_for_def)
qed

lemma fold_max_Max:
  assumes "ys \<noteq> []" "\<forall>y \<in> set ys. (0::int) \<le> y"
  shows "fold max ys (- 1) = Max (set ys)"
proof -
  from assms(1) obtain y rest where ys: "ys = y # rest" by (cases ys) auto
  with assms(2) have "0 \<le> y" by simp
  then have "max y (- 1) = y" by simp
  then have "fold max ys (- 1) = fold max rest y" by (simp add: ys)
  also have "\<dots> = Max (set (y # rest))" by (rule Max.set_eq_fold [symmetric])
  finally show ?thesis by (simp only: ys)
qed

subsection \<open>A pass scoped to one account\<close>

lemma scoped_values:
  assumes "pa i = pa' i" "us i = us' i" "acc_id b = i"
  shows "monitored pa b = monitored pa' b"
    and "threshold_for pa b = threshold_for pa' b"
    and "pct_for pa us b = pct_for pa' us' b"
proof -
  have c: "conf_of pa (acc_id b) = conf_of pa' (acc_id b)"
    using assms by (simp add: conf_of_def)
  then have l: "limit_for pa b = limit_for pa' b" by (simp add: limit_for_def)
  show "monitored pa b = monitored pa' b" by (simp add: monitored_def c l)
  show "threshold_for pa b = threshold_for pa' b" by (simp add: threshold_for_def c)
  show "pct_for pa us b = pct_for pa' us' b"
    using assms by (simp add: pct_for_def l split: usage_result.splits)
qed

lemma scoped_over:
  assumes "i \<noteq> []" "pa i = pa' i" "us i = us' i"
  shows "over_threshold pa us (Some i) b = over_threshold pa' us' (Some i) b"
proof (cases "acc_id b = i")
  case True
  from scoped_values [where pa = pa and pa' = pa' and us = us and us' = us' and i = i and b = b, OF assms(2,3) True] assms(3) True show ?thesis
    by (simp add: over_threshold_def)
next
  case False
  then show ?thesis using assms(1) by (simp add: over_threshold_def out_of_scope_def)
qed

lemma scoped_floored:
  assumes "pa i = pa' i" "us i = us' i" "acc_id b = i"
  shows "floored_for pa us b = floored_for pa' us' b"
  using scoped_values(3) [where pa = pa and pa' = pa' and us = us and us' = us' and i = i and b = b, OF assms] by (simp add: floored_for_def)

lemma badge_for_cong:
  assumes "\<forall>b \<in> set over. floored_for pa us b = floored_for pa' us' b"
  shows "badge_for ext pa us over = badge_for ext pa' us' over"
proof -
  have m: "map (floored_for pa us) over = map (floored_for pa' us') over"
    using assms by simp
  have "filter (\<lambda>a. floored_for pa us a = p) over = filter (\<lambda>a. floored_for pa' us' a = p) over"
    for p
    using assms by (intro filter_cong) simp_all
  then show ?thesis by (simp add: badge_for_def m Let_def)
qed

subsection \<open>A second pass\<close>

lemma storePct_nonneg:
  assumes "0 \<le> x"
  shows "0 \<le> storePct_of x"
proof -
  have "0 \<le> js_mul x 10" using assms by (simp add: js_mul_def to_double_nonneg)
  then have "0 \<le> math_round (js_mul x 10)" by (simp add: math_round_def)
  then show ?thesis by (simp add: storePct_of_def js_div_def to_double_nonneg)
qed

lemma storePct_ge_threshold:
  assumes "one_decimal t" "t \<le> x"
  shows "t \<le> storePct_of x"
proof -
  define n where "n = \<lfloor>t * 10 + 1 / 2\<rfloor>"
  have n: "0 \<le> n" "n < 2 ^ 52" and t: "t = to_double (of_int n / 10)"
    using assms(1) unfolding one_decimal_def n_def Let_def by blast+
  show ?thesis
  proof (cases "n = 0")
    case True
    then have "t = 0" using t by (simp add: to_double_def)
    with assms(2) show ?thesis by (simp add: storePct_nonneg)
  next
    case False
    with n have n1: "1 \<le> n" by simp
    let ?r = "of_int n / 10 :: rat"
    have r: "0 < ?r" using n1 by simp
    have nb: "(of_int n :: rat) \<le> 2 ^ 52"
      using n(2) by (metis less_imp_le of_int_le_iff of_int_numeral of_int_power)
    from to_double_err [of ?r] have err: "\<bar>t - ?r\<bar> \<le> ?r / 2 ^ 53"
      using r by (simp add: t)
    have "?r / 2 ^ 53 \<le> 1 / 20" using nb by simp
    with err have tl: "?r - 1 / 20 \<le> t" and tu: "t \<le> ?r + 1 / 20" by linarith+
    have tpos: "0 < t" unfolding t using r by (rule to_double_pos)
    have tid: "to_double t = t" unfolding t using r by (rule to_double_idem)
    \<comment> \<open>the product by 10 does not round below \<open>n - 1 / 2\<close>\<close>
    let ?h = "of_int (2 * n - 1) * (2::rat) powi (- 1)"
    have h: "?h = of_int n - 1 / 2" by (simp add: power_int_minus field_simps)
    have "2 * n - 1 < 2 ^ 53" using n(2) by simp
    then have hid: "to_double ?h = ?h" using n1 by (intro to_double_dyadic) simp_all
    have "?h \<le> x * 10" using tl assms(2) by (simp add: h)
    moreover have "0 < ?h" using n1 by (simp add: h)
    ultimately have "?h \<le> js_mul x 10"
      unfolding js_mul_def using hid by (intro to_double_ge)
    then have "of_int n \<le> js_mul x 10 + 1 / 2" by (simp add: h)
    then have k: "n \<le> math_round (js_mul x 10)"
      unfolding math_round_def by (simp only: le_floor_iff)
    show ?thesis
    proof (cases "math_round (js_mul x 10) = n")
      case True
      then show ?thesis by (simp add: storePct_of_def js_div_def t)
    next
      case False
      with k have "n + 1 \<le> math_round (js_mul x 10)" by simp
      then have "(of_int (n + 1) :: rat) \<le> of_int (math_round (js_mul x 10))"
        by (simp only: of_int_le_iff)
      then have "?r + 1 / 10 \<le> of_int (math_round (js_mul x 10)) / 10" by simp
      with tu have "t \<le> of_int (math_round (js_mul x 10)) / 10" by linarith
      then show ?thesis
        unfolding storePct_of_def js_div_def using tid tpos by (intro to_double_ge)
    qed
  qed
qed

lemma settled_id: "acc_id b = acc_id a \<Longrightarrow> settled pa us h b = settled pa us h a"
  by (simp add: settled_def monitored_def limit_for_def split: usage_result.splits)

lemma settled_established:
  "\<not> out_of_scope only a \<Longrightarrow> settled pa us (hst (loop_body pa us f only a s)) a"
  by (auto simp: settled_def loop_body_def monitored_def limit_for_def Let_def storage_set_def
      split: usage_result.splits)

lemma settled_preserved:
  assumes "settled pa us (hst s) a"
  shows "settled pa us (hst (loop_body pa us f only b s)) a"
proof (cases "acc_id b = acc_id a")
  case True
  show ?thesis
  proof (cases "out_of_scope only b")
    case True
    then show ?thesis using assms by (simp add: loop_body_def)
  next
    case False
    then have "settled pa us (hst (loop_body pa us f only b s)) b"
      by (rule settled_established)
    then show ?thesis using settled_id [OF True] by simp
  qed
next
  case False
  then have "account_view (acc_id a) (hst (loop_body pa us f only b s)) =
      account_view (acc_id a) (hst s)"
    by (intro loop_body_frame) simp
  then have "lastNotifiedPct (hst (loop_body pa us f only b s)) (notify_key (acc_id a)) =
      lastNotifiedPct (hst s) (notify_key (acc_id a))"
    by (simp add: account_view_def)
  then show ?thesis using assms by (simp add: settled_def split: usage_result.splits)
qed

lemma settled_for_accounts_preserved:
  "settled pa us (hst s) a \<Longrightarrow> settled pa us (hst (for_accounts pa us f only xs s)) a"
  by (induction xs arbitrary: s) (simp_all add: settled_preserved)

lemma settled_for_accounts:
  "a \<in> set xs \<Longrightarrow> \<not> out_of_scope only a \<Longrightarrow>
   settled pa us (hst (for_accounts pa us f only xs s)) a"
proof (induction xs arbitrary: s)
  case Nil
  then show ?case by simp
next
  case (Cons b xs)
  show ?case
  proof (cases "a = b")
    case True
    have "settled pa us (hst (loop_body pa us f only b s)) a"
      using Cons.prems(2) True by (simp add: settled_established)
    then show ?thesis by (simp add: settled_for_accounts_preserved)
  next
    case False
    with Cons.prems have "a \<in> set xs" by simp
    then show ?thesis using Cons.IH Cons.prems(2) by simp
  qed
qed

lemma settled_no_create:
  assumes "settled pa us (hst s) a \<or> out_of_scope only a" "one_decimal (threshold_for pa a)"
  shows "created (hst (loop_body pa us False only a s)) = created (hst s)"
proof (cases "out_of_scope only a")
  case True
  then show ?thesis by (simp add: loop_body_def)
next
  case scope: False
  with assms(1) have st: "settled pa us (hst s) a" by simp
  show ?thesis
  proof (cases "monitored pa a")
    case False
    then show ?thesis
      by (simp add: body_unmonitored [OF scope] created_def storage_set_def
          clearNotification_def)
  next
    case mon: True
    show ?thesis
    proof (cases "us (acc_id a)")
      case Failed
      then show ?thesis
        using scope mon by (simp add: body_failed created_def log_event_def)
    next
      case (Bytes u)
      let ?pct = "pctUsed_of u (limit_for pa a)"
      from st mon Bytes have "lastPct_of (hst s) (acc_id a) = storePct_of ?pct"
        by (simp add: settled_def lastPct_of_def)
      moreover have "threshold_for pa a \<le> storePct_of ?pct" if "threshold_for pa a \<le> ?pct"
        using assms(2) that by (rule storePct_ge_threshold)
      ultimately have nc: "\<not> (threshold_for pa a \<le> ?pct \<and>
          lastPct_of (hst s) (acc_id a) < threshold_for pa a)"
        by auto
      show ?thesis
        using scope mon Bytes nc
        by (auto simp: created_def loop_body_def monitored_def limit_for_def threshold_for_def
            Let_def log_event_def clearNotification_def storage_set_def lastPct_of_def)
    qed
  qed
qed

lemma settled_pass_no_create:
  assumes "\<forall>a \<in> set xs. one_decimal (threshold_for pa a)"
    "\<forall>a \<in> set xs. settled pa us (hst s) a \<or> out_of_scope only a"
  shows "created (hst (for_accounts pa us False only xs s)) = created (hst s)"
  using assms
proof (induction xs arbitrary: s)
  case Nil
  then show ?case by simp
next
  case (Cons b xs)
  let ?s1 = "loop_body pa us False only b s"
  have 1: "created (hst ?s1) = created (hst s)"
    using Cons.prems by (intro settled_no_create) simp_all
  have "\<forall>a \<in> set xs. settled pa us (hst ?s1) a \<or> out_of_scope only a"
    using Cons.prems(2) settled_preserved by auto
  with Cons.IH [of ?s1] Cons.prems(1) have "created (hst (for_accounts pa us False only xs ?s1)) =
      created (hst ?s1)"
    by simp
  with 1 show ?case by simp
qed

lemma settled_setBadge [simp]: "settled pa us (setBadge e p n h) a = settled pa us h a"
  by (simp add: settled_def setBadge_def split: option.splits usage_result.splits)

lemma created_setBadge [simp]: "created (setBadge e p n h) = created h"
  by (simp add: created_def setBadge_def split: option.splits)

lemma notify_count_created:
  "notify_count i h = length (filter (about i) (created h))"
proof -
  have "filter is_create (filter (about i) tr) = filter (about i) (filter is_create tr)" for tr
    by (induction tr) auto
  then show ?thesis by (simp add: notify_count_def events_about_def created_def)
qed

lemma body_count_le:
  "notify_count (acc_id a) (hst (loop_body pa us f only a s)) \<le>
   notify_count (acc_id a) (hst s) + 1"
  by (auto simp: notify_count_def events_about_def loop_body_def Let_def log_event_def
      clearNotification_def storage_set_def notify_def split: usage_result.splits)

subsection \<open>The sum over a listing\<close>




subsection \<open>The interval\<close>

lemma floor_max_zero: "max 0 \<lfloor>v::rat\<rfloor> = \<lfloor>max 0 v\<rfloor>"
  by (simp add: max_def)

subsection \<open>A pass over no account\<close>

lemma pass_nil:
  "checkAllAccounts ext [] pa us f only h =
     h\<lparr>badgeText := BadgeEmpty, badgeTitle := defaultTitle ext\<rparr>"
  by (simp add: checkAllAccounts_def setBadge_def)

section \<open>The claims\<close>



text \<open>
  C2. Take a pass over accounts with distinct ids and an account of the pass that is
  inactive or has a limit of at most 0. After the pass no notification of the account is
  shown, its stored percentage is 0, and its usage was not summed: the trace has no new
  call of \<open>sumAccountBytes\<close> for it, and the pass does the same whatever the summation
  would have yielded for it, so that no percentage was computed.
\<close>

theorem unmonitored_account_cleared:
  assumes "distinct (map acc_id accounts)" and "a \<in> set accounts"
    and "\<not> out_of_scope only a"
    and "\<not> active_of (conf_of pa (acc_id a)) \<or> limit_for pa a \<le> 0"
  shows "getNotificationId (acc_id a) \<notin>
           notifications (checkAllAccounts ext accounts pa us f only h) \<and>
         lastNotifiedPct (checkAllAccounts ext accounts pa us f only h)
           (notify_key (acc_id a)) = Some 0 \<and>
         usage_calls (acc_id a) (checkAllAccounts ext accounts pa us f only h) =
           usage_calls (acc_id a) h \<and>
         checkAllAccounts ext accounts pa (us(acc_id a := r)) f only h =
           checkAllAccounts ext accounts pa us f only h"
proof -
  have nm: "\<not> monitored pa a" using assms(4) by (auto simp: monitored_def)
  note b = body_unmonitored [OF assms(3) nm]
  have 1: "getNotificationId (acc_id a) \<notin>
           notifications (checkAllAccounts ext accounts pa us f only h)"
    by (simp add: pass_notification [OF assms(1,2)] b storage_set_def clearNotification_def)
  have 2: "lastNotifiedPct (checkAllAccounts ext accounts pa us f only h)
           (notify_key (acc_id a)) = Some 0"
    by (simp add: pass_lastPct [OF assms(1,2)] b storage_set_def)
  have 3: "usage_calls (acc_id a) (checkAllAccounts ext accounts pa us f only h) =
           usage_calls (acc_id a) h"
  proof -
    have "events_about (acc_id a) (checkAllAccounts ext accounts pa us f only h) =
        events_about (acc_id a) h @ [ClearNotification (getNotificationId (acc_id a))]"
      unfolding pass_events [OF assms(1,2)] b
      by (simp add: events_about_def storage_set_def clearNotification_def)
    then show ?thesis by (simp add: usage_calls_about)
  qed
  have 4: "checkAllAccounts ext accounts pa (us(acc_id a := r)) f only h =
           checkAllAccounts ext accounts pa us f only h"
    unfolding checkAllAccounts_def
    by (subst for_accounts_usage_cong [where a = a and us' = us]) (simp_all add: nm)
  from 1 2 3 4 show ?thesis by blast
qed

theorem unmonitored_account_cleared_witness:
  "getNotificationId ''account1'' \<notin>
     notifications (checkAllAccounts ''MFA'' [scn_acc] scn_conf_off (scn_usage 9126805504)
       False None scn_host_notified) \<and>
   lastNotifiedPct (checkAllAccounts ''MFA'' [scn_acc] scn_conf_off (scn_usage 9126805504)
       False None scn_host_notified) (notify_key ''account1'') = Some 0 \<and>
   usage_calls ''account1'' (checkAllAccounts ''MFA'' [scn_acc] scn_conf_off
       (scn_usage 9126805504) False None scn_host_notified) = 0"
  using unmonitored_account_cleared [of "[scn_acc]" scn_acc None scn_conf_off "''MFA''"
      "scn_usage 9126805504" False scn_host_notified Failed]
  by (simp add: scn_defs conf_defs usage_calls_def)

text \<open>
  C3, as stated, fails for a threshold with more than one decimal place. The stored
  percentage is rounded to one decimal place, the threshold is not: with the threshold 80.01 and a
  usage of 8002 of 10000 bytes (80.02 percent) the first pass notifies and stores 80.0,
  which is below the threshold, and the second pass over the same usage and
  configuration notifies again.
\<close>

theorem second_pass_counterexample:
  "notify_count ''account1''
     (checkAllAccounts ''MFA'' [scn_acc] scn_conf_fractional (scn_usage 8002) False None
        scn_host) = 1 \<and>
   notify_count ''account1''
     (checkAllAccounts ''MFA'' [scn_acc] scn_conf_fractional (scn_usage 8002) False None
        (checkAllAccounts ''MFA'' [scn_acc] scn_conf_fractional (scn_usage 8002) False None
           scn_host)) = 2"
proof -
  let ?pass = "checkAllAccounts ''MFA'' [scn_acc] scn_conf_fractional (scn_usage 8002) False None"
  let ?T = "5630203221654897 / 70368744177664 :: rat"
  let ?P = "5630906909096673 / 70368744177664 :: rat"
  have d: "distinct (map acc_id [scn_acc])" and m: "scn_acc \<in> set [scn_acc]" by simp_all
  have i: "acc_id scn_acc = ''account1''" by (simp add: scn_acc_def)
  have sc: "\<not> out_of_scope None scn_acc" by (simp add: out_of_scope_def)
  have mo: "monitored scn_conf_fractional scn_acc"
    by (simp add: scn_conf_fractional_def scn_acc_def conf_defs)
  have us: "scn_usage 8002 (acc_id scn_acc) = Bytes 8002"
    by (simp add: scn_usage_def scn_acc_def)
  have l: "limit_for scn_conf_fractional scn_acc = 10000"
    and t: "threshold_for scn_conf_fractional scn_acc = ?T"
    by (simp_all add: scn_conf_fractional_def scn_acc_def conf_defs double_8001)
  have e: "events_about ''account1'' (?pass h) =
      events_about ''account1'' h @ [SumAccountBytes ''account1''] @
      (if lastPct_of h ''account1'' < ?T
       then [CreateNotification (getNotificationId ''account1'') 8002 10000 ?P ?T]
       else [])" for h
    using pass_events [OF d m, of "''MFA''" scn_conf_fractional "scn_usage 8002" False None h]
      body_events_monitored [where us = "scn_usage 8002" and a = scn_acc
        and pa = scn_conf_fractional and only = None and f = False, OF sc mo us]
    by (simp add: i l t pct_8002)
  have s: "lastNotifiedPct (?pass h) (notify_key ''account1'') = Some 80" for h
    using pass_lastPct [OF d m, of "''MFA''" scn_conf_fractional "scn_usage 8002" False None h]
      body_lastPct_monitored [where us = "scn_usage 8002" and a = scn_acc
        and pa = scn_conf_fractional and only = None and f = False, OF sc mo us]
    by (simp add: i l pct_8002 store_8002)
  have l0: "lastPct_of scn_host ''account1'' = 0"
    by (simp add: lastPct_of_def scn_host_def)
  have l1: "lastPct_of (?pass scn_host) ''account1'' = 80"
    by (simp add: lastPct_of_def s)
  have e0: "events_about ''account1'' scn_host = []"
    by (simp add: events_about_def scn_host_def)
  show ?thesis
    by (simp add: notify_count_def e l0 l1 e0)
qed

text \<open>
  C3, amended (idempotence). Two passes in a row, neither forced, over the same accounts
  with the same configuration and the same usage, every threshold having at most one
  decimal place (as the whole percentages the options page stores have): the second pass
  creates no notification. With distinct ids, every account gets at most one
  notification from the two passes together.
\<close>

theorem second_pass_silent:
  assumes "\<forall>a \<in> set accounts. one_decimal (threshold_for pa a)"
  shows "created (checkAllAccounts ext accounts pa us False only
                    (checkAllAccounts ext accounts pa us False only h)) =
         created (checkAllAccounts ext accounts pa us False only h) \<and>
         (distinct (map acc_id accounts) \<longrightarrow>
          (\<forall>a \<in> set accounts.
             notify_count (acc_id a)
               (checkAllAccounts ext accounts pa us False only
                  (checkAllAccounts ext accounts pa us False only h)) \<le>
             notify_count (acc_id a) h + 1))"
proof -
  let ?h1 = "checkAllAccounts ext accounts pa us False only h"
  let ?h2 = "checkAllAccounts ext accounts pa us False only ?h1"
  have st: "\<forall>a \<in> set accounts. settled pa us ?h1 a \<or> out_of_scope only a"
    by (auto simp: checkAllAccounts_def Let_def settled_for_accounts)
  have 1: "created ?h2 = created ?h1"
    using settled_pass_no_create [OF assms, of us
        "\<lparr>hst = ?h1, topBadgePercent = - 1, topBadgeAccountName = None\<rparr>" only] st
    by (simp add: checkAllAccounts_def [of ext accounts pa us False only ?h1] Let_def)
  have 2: "notify_count (acc_id a) ?h2 \<le> notify_count (acc_id a) h + 1"
    if d: "distinct (map acc_id accounts)" and m: "a \<in> set accounts" for a
  proof -
    have "notify_count (acc_id a) ?h2 = notify_count (acc_id a) ?h1"
      by (simp add: notify_count_created 1)
    also have "\<dots> = notify_count (acc_id a) (hst (loop_body pa us False only a
        \<lparr>hst = h, topBadgePercent = - 1, topBadgeAccountName = None\<rparr>))"
      by (simp add: notify_count_def pass_events [OF d m])
    also have "\<dots> \<le> notify_count (acc_id a) h + 1"
      using body_count_le [of a pa us False only
          "\<lparr>hst = h, topBadgePercent = - 1, topBadgeAccountName = None\<rparr>"] by simp
    finally show ?thesis .
  qed
  from 1 2 show ?thesis by blast
qed

theorem second_pass_silent_witness:
  "created (checkAllAccounts ''MFA'' [scn_acc] scn_conf (scn_usage 9126805504) False None
      (checkAllAccounts ''MFA'' [scn_acc] scn_conf (scn_usage 9126805504) False None
         scn_host)) =
   created (checkAllAccounts ''MFA'' [scn_acc] scn_conf (scn_usage 9126805504) False None
      scn_host) \<and>
   notify_count ''account1''
     (checkAllAccounts ''MFA'' [scn_acc] scn_conf (scn_usage 9126805504) False None
        (checkAllAccounts ''MFA'' [scn_acc] scn_conf (scn_usage 9126805504) False None
           scn_host)) \<le> 1"
  using second_pass_silent [of "[scn_acc]" scn_conf "''MFA''" "scn_usage 9126805504" None
      scn_host]
  by (simp add: scn_defs conf_defs one_decimal_80 notify_count_def events_about_def)

text \<open>
  C4 (badge). Usage being a count of bytes, it is not negative. After a pass, if no
  account of the pass is at or above its threshold, the badge text is empty and the title
  is the default one. Otherwise the text is the greatest floored percentage among the
  accounts at or above their thresholds, and the title is that of the first account with
  that floored percentage: its name (its id if it has no name). The percentages are the
  doubles the code computes: 57 percent of 25 GiB is computed as 56.99999999999999 and
  shown as 56.
\<close>

theorem badge_shows_worst:
  assumes "\<forall>b \<in> set accounts. \<forall>u. us (acc_id b) = Bytes u \<longrightarrow> 0 \<le> u"
  shows "(let over = filter (over_threshold pa us only) accounts;
              h' = checkAllAccounts ext accounts pa us f only h
          in if over = [] then badgeText h' = BadgeEmpty \<and> badgeTitle h' = defaultTitle ext
             else (let m = Max (set (map (floored_for pa us) over));
                       worst = hd (filter (\<lambda>a. floored_for pa us a = m) over)
                   in badgeText h' = BadgePercent m \<and> badgeTitle h' = title_for ext worst \<and>
                      worst \<in> set over \<and> floored_for pa us worst = m))"
proof -
  let ?over = "filter (over_threshold pa us only) accounts"
  let ?h' = "checkAllAccounts ext accounts pa us f only h"
  have pb: "(badgeText ?h', badgeTitle ?h') = badge_for ext pa us ?over"
    by (rule pass_badge)
  show ?thesis
  proof (cases "?over = []")
    case True
    with pb show ?thesis by (simp add: badge_for_def Let_def)
  next
    case False
    let ?m = "Max (set (map (floored_for pa us) ?over))"
    let ?w = "hd (filter (\<lambda>a. floored_for pa us a = ?m) ?over)"
    have nn: "\<forall>y \<in> set (map (floored_for pa us) ?over). 0 \<le> y"
      using assms by (auto intro: floored_nonneg)
    have fm: "fold max (map (floored_for pa us) ?over) (- 1) = ?m"
      using False nn by (intro fold_max_Max) simp_all
    have "?m \<in> set (map (floored_for pa us) ?over)"
      using False by (intro Max_in) (auto simp: filter_empty_conv)
    then have ne: "filter (\<lambda>a. floored_for pa us a = ?m) ?over \<noteq> []"
      by (auto simp: filter_empty_conv)
    then have "?w \<in> set (filter (\<lambda>a. floored_for pa us a = ?m) ?over)"
      by (rule hd_in_set)
    then have w: "?w \<in> set ?over" "floored_for pa us ?w = ?m" by simp_all
    have "0 \<le> ?m" using nn \<open>?m \<in> set (map (floored_for pa us) ?over)\<close> by blast
    with pb fm have "badgeText ?h' = BadgePercent ?m" "badgeTitle ?h' = title_for ext ?w"
      by (simp_all add: badge_for_def Let_def title_for_def display_name_def)
    with w False show ?thesis by (simp add: Let_def)
  qed
qed

theorem badge_shows_worst_witness:
  "badgeText (checkAllAccounts ''MFA'' [scn_acc, scn_acc2] scn2_conf scn2_usage False None
       scn_host) = BadgePercent 95 \<and>
   badgeTitle (checkAllAccounts ''MFA'' [scn_acc, scn_acc2] scn2_conf scn2_usage False None
       scn_host) = ''Home'' \<and>
   badgeText (checkAllAccounts ''MFA'' [scn_acc] scn_conf_25gib (scn_usage 15300820992)
       False None scn_host) = BadgePercent 56"
  using badge_shows_worst [of "[scn_acc, scn_acc2]" scn2_usage scn2_conf None "''MFA''"
      False scn_host]
    badge_shows_worst [of "[scn_acc]" "scn_usage 15300820992" scn_conf_25gib None "''MFA''"
      False scn_host]
  by (simp add: scn_defs conf_defs over_threshold_def pct_for_def floored_for_def
      title_for_def Let_def pct_evals)

text \<open>
  C5. Take a pass over accounts with distinct ids and an account of the pass whose
  computed percentage is below its threshold. The pass itself clears the notification of
  the account (after the pass none is shown; the only events about the account are the
  summation and the clearing), and the badge is the one a pass without the account
  leaves.
\<close>

theorem below_threshold_cleared:
  assumes "distinct (map acc_id accounts)" and "a \<in> set accounts"
    and "\<not> out_of_scope only a" and "monitored pa a" and "us (acc_id a) = Bytes used"
    and "pctUsed_of used (limit_for pa a) < threshold_for pa a"
  shows "getNotificationId (acc_id a) \<notin>
           notifications (checkAllAccounts ext accounts pa us f only h) \<and>
         events_about (acc_id a) (checkAllAccounts ext accounts pa us f only h) =
           events_about (acc_id a) h @
             [SumAccountBytes (acc_id a), ClearNotification (getNotificationId (acc_id a))] \<and>
         badgeText (checkAllAccounts ext accounts pa us f only h) =
           badgeText (checkAllAccounts ext
             (filter (\<lambda>b. acc_id b \<noteq> acc_id a) accounts) pa us f only h) \<and>
         badgeTitle (checkAllAccounts ext accounts pa us f only h) =
           badgeTitle (checkAllAccounts ext
             (filter (\<lambda>b. acc_id b \<noteq> acc_id a) accounts) pa us f only h)"
proof -
  have 1: "getNotificationId (acc_id a) \<notin>
           notifications (checkAllAccounts ext accounts pa us f only h)"
    using assms(3-6) by (simp add: pass_notification [OF assms(1,2)] body_notification_below)
  have 2: "events_about (acc_id a) (checkAllAccounts ext accounts pa us f only h) =
           events_about (acc_id a) h @
             [SumAccountBytes (acc_id a), ClearNotification (getNotificationId (acc_id a))]"
    using assms(3-6)
    by (simp add: pass_events [OF assms(1,2)] body_events_monitored)
  have no: "\<not> over_threshold pa us only a"
    using assms(5,6) by (simp add: over_threshold_def pct_for_def)
  have "(badgeText (checkAllAccounts ext accounts pa us f only h),
         badgeTitle (checkAllAccounts ext accounts pa us f only h)) =
        (badgeText (checkAllAccounts ext
             (filter (\<lambda>b. acc_id b \<noteq> acc_id a) accounts) pa us f only h),
         badgeTitle (checkAllAccounts ext
             (filter (\<lambda>b. acc_id b \<noteq> acc_id a) accounts) pa us f only h))"
    by (simp only: pass_badge not_over_filter [OF no])
  with 1 2 show ?thesis by simp
qed

theorem below_threshold_cleared_witness:
  "getNotificationId ''account1'' \<notin>
     notifications (checkAllAccounts ''MFA'' [scn_acc] scn_conf (scn_usage 7516192768)
       True None scn_host_notified) \<and>
   badgeText (checkAllAccounts ''MFA'' [scn_acc] scn_conf (scn_usage 7516192768)
       True None scn_host_notified) = BadgeEmpty \<and>
   badgeTitle (checkAllAccounts ''MFA'' [scn_acc] scn_conf (scn_usage 7516192768)
       True None scn_host_notified) = ''MFA''"
  using below_threshold_cleared [of "[scn_acc]" scn_acc None scn_conf
      "scn_usage 7516192768" 7516192768 "''MFA''" True scn_host_notified]
  by (simp add: scn_defs conf_defs pct_evals pass_nil defaultTitle_def)

text \<open>
  C6. Take a pass over accounts with distinct ids and a monitored account of the pass
  whose summation fails. The pass leaves the stored percentage of the account and its
  notification as they were, logs the failure, and goes on: but for the events about the
  failing account, the state after the pass is the one a pass over the other accounts
  leaves.
\<close>

theorem failed_account_skipped:
  assumes "distinct (map acc_id accounts)" and "a \<in> set accounts"
    and "\<not> out_of_scope only a" and "monitored pa a" and "us (acc_id a) = Failed"
  shows "lastNotifiedPct (checkAllAccounts ext accounts pa us f only h)
           (notify_key (acc_id a)) = lastNotifiedPct h (notify_key (acc_id a)) \<and>
         (getNotificationId (acc_id a) \<in>
            notifications (checkAllAccounts ext accounts pa us f only h)) =
           (getNotificationId (acc_id a) \<in> notifications h) \<and>
         events_about (acc_id a) (checkAllAccounts ext accounts pa us f only h) =
           events_about (acc_id a) h @
             [SumAccountBytes (acc_id a), ConsoleError (acc_id a)] \<and>
         same_but_trace (checkAllAccounts ext accounts pa us f only h)
           (checkAllAccounts ext (filter (\<lambda>b. acc_id b \<noteq> acc_id a) accounts)
              pa us f only h) \<and>
         filter (\<lambda>e. \<not> about (acc_id a) e)
           (trace (checkAllAccounts ext accounts pa us f only h)) =
         filter (\<lambda>e. \<not> about (acc_id a) e)
           (trace (checkAllAccounts ext (filter (\<lambda>b. acc_id b \<noteq> acc_id a) accounts)
              pa us f only h))"
proof -
  note b = body_failed [where us = us and a = a and pa = pa and only = only, OF assms(3,4,5)]
  have 1: "lastNotifiedPct (checkAllAccounts ext accounts pa us f only h)
           (notify_key (acc_id a)) = lastNotifiedPct h (notify_key (acc_id a))"
    by (simp add: pass_lastPct [OF assms(1,2)] b log_event_def)
  have 2: "(getNotificationId (acc_id a) \<in>
            notifications (checkAllAccounts ext accounts pa us f only h)) =
           (getNotificationId (acc_id a) \<in> notifications h)"
    by (simp add: pass_notification [OF assms(1,2)] b log_event_def)
  have 3: "events_about (acc_id a) (checkAllAccounts ext accounts pa us f only h) =
           events_about (acc_id a) h @
             [SumAccountBytes (acc_id a), ConsoleError (acc_id a)]"
    unfolding pass_events [OF assms(1,2)] b
    by (simp add: events_about_def log_event_def)
  have m: "\<forall>b \<in> set accounts. acc_id b = acc_id a \<longrightarrow> monitored pa b"
    using assms(4) monitored_id by blast
  from 1 2 3 agree_pass [where us = us and i = "acc_id a", OF assms(5) m, of ext f only h]
  show ?thesis by blast
qed

theorem failed_account_skipped_witness:
  "lastNotifiedPct (checkAllAccounts ''MFA'' [scn_acc] scn_conf (\<lambda>i. Failed)
       True None scn_host_notified) (notify_key ''account1'') = Some 85 \<and>
   getNotificationId ''account1'' \<in>
     notifications (checkAllAccounts ''MFA'' [scn_acc] scn_conf (\<lambda>i. Failed)
       True None scn_host_notified) \<and>
   events_about ''account1'' (checkAllAccounts ''MFA'' [scn_acc] scn_conf (\<lambda>i. Failed)
       True None scn_host_notified) =
     [SumAccountBytes ''account1'', ConsoleError ''account1''] \<and>
   badgeText (checkAllAccounts ''MFA'' [scn_acc] scn_conf (\<lambda>i. Failed)
       True None scn_host_notified) = BadgeEmpty"
  using failed_account_skipped [of "[scn_acc]" scn_acc None scn_conf "\<lambda>i. Failed" "''MFA''"
      True scn_host_notified]
  by (simp add: scn_defs conf_defs same_but_trace_def pass_nil events_about_def
      getNotificationId_def MFA_NOTIFICATION_ID_PREFIX_def)

text \<open>
  C7, as stated, fails where the stored interval is not a number: \<open>getGlobalIntervalMin\<close>
  replaces such a value by the default of 360 minutes, so a timer is created.
\<close>

theorem rearm_counterexample:
  "quota_timers (scheduleChecksFromSettings (Some (JStr ''never'')) []) =
     [(''quota-check'', 360)] \<and>
   quota_timers (scheduleChecksFromSettings (Some (JStr ''never'')) []) \<noteq> []"
  by (simp add: scheduleChecksFromSettings_def getGlobalIntervalMin_def alarms_clear_def
      alarms_create_def quota_timers_def MFA_DEFAULT_CHECK_INTERVAL_MIN_def)

text \<open>
  C7, amended. Re-arming removes every timer of the quota check that was there and leaves
  the other timers alone. A stored interval that is missing or not a number counts as
  360 minutes. For a stored number \<open>v\<close>: if \<open>floor (max 0 v) = 0\<close> (as for 0, 0.5 and negative
  values) no timer is created; otherwise exactly one timer is created, with the period
  \<open>max 1 (floor v)\<close> minutes.
\<close>

theorem rearm_from_stored_interval:
  "quota_timers (scheduleChecksFromSettings stored alarms) =
     (case stored of
        Some (JNum v) \<Rightarrow>
          if \<lfloor>max 0 v\<rfloor> = 0 then [] else [(''quota-check'', max 1 \<lfloor>v\<rfloor>)]
      | _ \<Rightarrow> [(''quota-check'', 360)]) \<and>
   other_timers (scheduleChecksFromSettings stored alarms) = other_timers alarms"
proof -
  have q: "quota_timers (alarms_clear ''quota-check'' al) = []" for al
    by (simp add: quota_timers_def alarms_clear_def)
  have o: "other_timers (alarms_clear ''quota-check'' al) = other_timers al" for al
    by (simp add: other_timers_def alarms_clear_def)
  have qc: "quota_timers (alarms_create ''quota-check'' p al) = [(''quota-check'', p)]" for p al
    by (simp add: quota_timers_def alarms_create_def alarms_clear_def)
  have oc: "other_timers (alarms_create ''quota-check'' p al) = other_timers al" for p al
    by (simp add: other_timers_def alarms_create_def alarms_clear_def)
  have r: "quota_timers (scheduleChecksFromSettings stored alarms) =
      (let v = getGlobalIntervalMin stored
       in if \<lfloor>max 0 v\<rfloor> = 0 then [] else [(''quota-check'', max 1 \<lfloor>v\<rfloor>)])"
  proof (cases "getGlobalIntervalMin stored = 0")
    case True
    then show ?thesis by (simp add: scheduleChecksFromSettings_def Let_def q)
  next
    case False
    have "max 1 (max 0 \<lfloor>getGlobalIntervalMin stored\<rfloor>) = max 1 \<lfloor>getGlobalIntervalMin stored\<rfloor>"
      by simp
    with False show ?thesis
      by (simp add: scheduleChecksFromSettings_def Let_def q qc floor_max_zero [symmetric])
  qed
  have 1: "quota_timers (scheduleChecksFromSettings stored alarms) =
     (case stored of
        Some (JNum v) \<Rightarrow>
          if \<lfloor>max 0 v\<rfloor> = 0 then [] else [(''quota-check'', max 1 \<lfloor>v\<rfloor>)]
      | _ \<Rightarrow> [(''quota-check'', 360)])"
    unfolding r
    by (simp add: getGlobalIntervalMin_def MFA_DEFAULT_CHECK_INTERVAL_MIN_def Let_def
        split: option.splits js_value.splits)
  have 2: "other_timers (scheduleChecksFromSettings stored alarms) = other_timers alarms"
    by (simp add: scheduleChecksFromSettings_def Let_def o oc)
  from 1 2 show ?thesis by simp
qed

theorem rearm_from_stored_interval_witness:
  "quota_timers (scheduleChecksFromSettings (Some (JNum 45)) [(''quota-check'', 360)]) =
     [(''quota-check'', 45)] \<and>
   quota_timers (scheduleChecksFromSettings (Some (JNum 0)) [(''quota-check'', 360)]) = [] \<and>
   quota_timers (scheduleChecksFromSettings (Some (JNum (1 / 2))) [(''quota-check'', 360)]) = [] \<and>
   quota_timers (scheduleChecksFromSettings (Some (JNum (- 3))) [(''quota-check'', 360)]) = [] \<and>
   quota_timers (scheduleChecksFromSettings None []) = [(''quota-check'', 360)]"
  using rearm_from_stored_interval [of "Some (JNum 45)" "[(''quota-check'', 360)]"]
    rearm_from_stored_interval [of "Some (JNum 0)" "[(''quota-check'', 360)]"]
    rearm_from_stored_interval [of "Some (JNum (1 / 2))" "[(''quota-check'', 360)]"]
    rearm_from_stored_interval [of "Some (JNum (- 3))" "[(''quota-check'', 360)]"]
    rearm_from_stored_interval [of None "[]"]
  by (simp add: floor_eq_iff)

text \<open>
  C8. Take a pass over accounts with distinct ids and a monitored account of the pass
  whose usage was summed. Whether the pass is forced or not, and whatever was stored and
  shown before, the percentage stored for the account after the pass is its percentage
  rounded to one decimal place, as doubles allow: the double of a number of tenths that
  is within half a tenth of the computed percentage, up to the rounding error of the
  multiplication by 10.
\<close>

theorem notify_state_rounded:
  assumes "distinct (map acc_id accounts)" and "a \<in> set accounts"
    and "\<not> out_of_scope only a" and "monitored pa a" and "us (acc_id a) = Bytes used"
  shows "lastNotifiedPct (checkAllAccounts ext accounts pa us f only h)
           (notify_key (acc_id a)) = Some (storePct_of (pctUsed_of used (limit_for pa a))) \<and>
         rounded_to_one_decimal (pctUsed_of used (limit_for pa a))
           (storePct_of (pctUsed_of used (limit_for pa a)))"
  using assms
  by (simp add: pass_lastPct body_lastPct_monitored storePct_rounded)

theorem notify_state_rounded_witness:
  "lastNotifiedPct (checkAllAccounts ''MFA'' [scn_acc] scn_conf (scn_usage 9126805504)
       False None scn_host) (notify_key ''account1'') = Some 85 \<and>
   lastNotifiedPct (checkAllAccounts ''MFA'' [scn_acc] scn_conf_5gib (scn_usage 2751463424)
       False None scn_host) (notify_key ''account1'') = Some (to_double (512 / 10))"
  using notify_state_rounded [of "[scn_acc]" scn_acc None scn_conf "scn_usage 9126805504"
      9126805504 "''MFA''" False scn_host]
    notify_state_rounded [of "[scn_acc]" scn_acc None scn_conf_5gib "scn_usage 2751463424"
      2751463424 "''MFA''" False scn_host]
  unfolding double_512
  by (simp add: scn_defs conf_defs pct_evals)



text \<open>
  C10. A pass scoped to one account leaves a badge that depends on that account alone:
  two such passes over the same accounts, whose configurations and usages agree on the
  selected account, leave the same badge text and title, whatever the other accounts'
  configuration and usage, the flag and the state before. If the selected account is
  inactive, has no limit, fails to be summed or is below its threshold, the badge text is
  empty and the title the default one.
\<close>

theorem scoped_badge_depends_on_account:
  assumes "i \<noteq> []" and "pa i = pa' i" and "us i = us' i"
  shows "badgeText (checkAllAccounts ext accounts pa us f (Some i) h) =
           badgeText (checkAllAccounts ext accounts pa' us' f' (Some i) h') \<and>
         badgeTitle (checkAllAccounts ext accounts pa us f (Some i) h) =
           badgeTitle (checkAllAccounts ext accounts pa' us' f' (Some i) h') \<and>
         (\<not> active_of (conf_of pa i) \<or> limit_of (conf_of pa i) \<le> 0 \<or> us i = Failed \<or>
          (\<exists>u. us i = Bytes u \<and>
               pctUsed_of u (limit_of (conf_of pa i)) < threshold_of (conf_of pa i)) \<longrightarrow>
          badgeText (checkAllAccounts ext accounts pa us f (Some i) h) = BadgeEmpty \<and>
          badgeTitle (checkAllAccounts ext accounts pa us f (Some i) h) = defaultTitle ext)"
proof -
  let ?over = "filter (over_threshold pa us (Some i)) accounts"
  have o: "filter (over_threshold pa' us' (Some i)) accounts = ?over"
    by (intro filter_cong) (simp_all add: scoped_over [where pa = pa and pa' = pa' and us = us and us' = us' and i = i, OF assms])
  have "\<forall>b \<in> set ?over. acc_id b = i"
    using assms(1) by (auto simp: over_threshold_def out_of_scope_def)
  then have "\<forall>b \<in> set ?over. floored_for pa us b = floored_for pa' us' b"
    using scoped_floored [where pa = pa and pa' = pa' and us = us and us' = us' and i = i, OF assms(2,3)] by blast
  then have c: "badge_for ext pa us ?over = badge_for ext pa' us' ?over"
    by (rule badge_for_cong)
  have "(badgeText (checkAllAccounts ext accounts pa us f (Some i) h),
         badgeTitle (checkAllAccounts ext accounts pa us f (Some i) h)) =
        (badgeText (checkAllAccounts ext accounts pa' us' f' (Some i) h'),
         badgeTitle (checkAllAccounts ext accounts pa' us' f' (Some i) h'))"
    by (simp only: pass_badge o c)
  then have 1: "badgeText (checkAllAccounts ext accounts pa us f (Some i) h) =
           badgeText (checkAllAccounts ext accounts pa' us' f' (Some i) h')"
    and 2: "badgeTitle (checkAllAccounts ext accounts pa us f (Some i) h) =
           badgeTitle (checkAllAccounts ext accounts pa' us' f' (Some i) h')"
    by simp_all
  have 3: "badgeText (checkAllAccounts ext accounts pa us f (Some i) h) = BadgeEmpty \<and>
          badgeTitle (checkAllAccounts ext accounts pa us f (Some i) h) = defaultTitle ext"
    if q: "\<not> active_of (conf_of pa i) \<or> limit_of (conf_of pa i) \<le> 0 \<or> us i = Failed \<or>
          (\<exists>u. us i = Bytes u \<and>
               pctUsed_of u (limit_of (conf_of pa i)) < threshold_of (conf_of pa i))"
  proof -
    have "\<not> over_threshold pa us (Some i) b" for b
      using q assms(1)
      by (auto simp: over_threshold_def out_of_scope_def monitored_def limit_for_def
          threshold_for_def pct_for_def)
    then have "?over = []" by (simp add: filter_empty_conv)
    then have "(badgeText (checkAllAccounts ext accounts pa us f (Some i) h),
         badgeTitle (checkAllAccounts ext accounts pa us f (Some i) h)) =
         (BadgeEmpty, defaultTitle ext)"
      by (simp add: pass_badge badge_for_def)
    then show ?thesis by simp
  qed
  from 1 2 3 show ?thesis by blast
qed

theorem scoped_badge_depends_on_account_witness:
  "badgeText (checkAllAccounts ''MFA'' [scn_acc, scn_acc2] scn2_conf scn2_usage False
       (Some ''account1'') scn_host) =
   badgeText (checkAllAccounts ''MFA'' [scn_acc, scn_acc2]
       (scn2_conf(''account2'' := None)) (scn2_usage(''account2'' := Failed)) False
       (Some ''account1'') scn_host) \<and>
   badgeText (checkAllAccounts ''MFA'' [scn_acc, scn_acc2] scn_conf_off scn2_usage False
       (Some ''account1'') scn_host_notified) = BadgeEmpty \<and>
   badgeTitle (checkAllAccounts ''MFA'' [scn_acc, scn_acc2] scn_conf_off scn2_usage False
       (Some ''account1'') scn_host_notified) = ''MFA''"
  using scoped_badge_depends_on_account [of "''account1''" scn2_conf
      "scn2_conf(''account2'' := None)" scn2_usage "scn2_usage(''account2'' := Failed)"
      "''MFA''" "[scn_acc, scn_acc2]" False scn_host False scn_host]
    scoped_badge_depends_on_account [of "''account1''" scn_conf_off scn_conf_off
      scn2_usage scn2_usage "''MFA''" "[scn_acc, scn_acc2]" False scn_host_notified False
      scn_host_notified]
  by (simp add: scn_defs conf_defs defaultTitle_def)

end
